theory Spec2Isabelle
  imports Main
begin

section \<open>JavaScript values used by the image API\<close>

text \<open>
  A \<open>number\<close> as the request parser produces it: \<open>parseInt\<close> returns an
  integer-valued number or \<open>NaN\<close>, so \<open>Fin n\<close> stands for the number with the
  integer value \<open>n\<close>. The model is exact for the integers a double holds exactly (up
  to \<open>2^53\<close> in size); beyond them JavaScript rounds and prints an exponent, which the
  model does not follow. Optional fields (\<open>width?: number\<close>, \<open>format?: string\<close>)
  are \<open>option\<close> values, \<open>None\<close> being \<open>undefined\<close>.
\<close>

datatype jsnum = NaN | Fin int

text \<open>Truthiness as \<open>||\<close> and \<open>?:\<close> test it: \<open>undefined\<close>, \<open>NaN\<close>, \<open>0\<close> and the
  empty string are falsy.\<close>

fun truthy_num :: "jsnum option \<Rightarrow> bool" where
  "truthy_num None = False"
| "truthy_num (Some NaN) = False"
| "truthy_num (Some (Fin n)) = (n \<noteq> 0)"

fun truthy_str :: "string option \<Rightarrow> bool" where
  "truthy_str None = False"
| "truthy_str (Some s) = (s \<noteq> [])"

text \<open>Number to string, as a template literal renders an integer-valued number: decimal
  digits, with a leading minus sign for a negative value.\<close>

definition digit_char :: "nat \<Rightarrow> char" where
  "digit_char d = char_of (48 + d)"

function digits10 :: "nat \<Rightarrow> string" where
  "digits10 n = (if n < 10 then [digit_char n] else digits10 (n div 10) @ [digit_char (n mod 10)])"
  by pat_completeness auto
termination
  by (relation "measure id") auto

definition int_to_string :: "int \<Rightarrow> string" where
  "int_to_string n = (if n < 0 then CHR ''-'' # digits10 (nat (- n)) else digits10 (nat n))"

fun num_to_string :: "jsnum \<Rightarrow> string" where
  "num_to_string NaN = ''NaN''"
| "num_to_string (Fin n) = int_to_string n"

section \<open>Node's \<open>path.parse\<close> (POSIX)\<close>

text \<open>
  The key functions call \<open>path.parse(filename).name\<close> and \<open>.ext\<close>. The model follows
  the POSIX implementation of Node's \<open>path\<close> module: one scan of the string from its
  last character down to \<open>start\<close>, keeping the five variables below, then the slices.
  \<open>-1\<close> is the "not seen yet" value of \<open>startDot\<close> and \<open>end\<close>, as in the library.
\<close>

record parse_vars =
  startDot :: int
  startPart :: int
  endPos :: int
  matchedSlash :: bool
  preDotState :: int

function parse_loop :: "string \<Rightarrow> int \<Rightarrow> int \<Rightarrow> parse_vars \<Rightarrow> parse_vars" where
  "parse_loop path start i v =
     (if i < start then v
      else if path ! nat i = CHR ''/'' then
        (if \<not> matchedSlash v then v\<lparr>startPart := i + 1\<rparr>
         else parse_loop path start (i - 1) v)
      else
        (let v1 = (if endPos v = -1 then v\<lparr>endPos := i + 1, matchedSlash := False\<rparr> else v);
             v2 = (if path ! nat i = CHR ''.'' then
                     (if startDot v1 = -1 then v1\<lparr>startDot := i\<rparr>
                      else if preDotState v1 \<noteq> 1 then v1\<lparr>preDotState := 1\<rparr>
                      else v1)
                   else if startDot v1 \<noteq> -1 then v1\<lparr>preDotState := -1\<rparr>
                   else v1)
         in parse_loop path start (i - 1) v2))"
  by pat_completeness auto
termination
  by (relation "measure (\<lambda>(path, start, i, v). nat (i - start + 1))") auto

definition slice :: "string \<Rightarrow> int \<Rightarrow> int \<Rightarrow> string" where
  "slice s a b = take (nat b - nat a) (drop (nat a) s)"

record parsed_path =
  p_root :: string
  p_dir :: string
  p_base :: string
  p_ext :: string
  p_name :: string

definition parse_init :: parse_vars where
  "parse_init = \<lparr>startDot = -1, startPart = 0, endPos = -1, matchedSlash = True, preDotState = 0\<rparr>"

definition path_parse :: "string \<Rightarrow> parsed_path" where
  "path_parse path =
     (if path = [] then \<lparr>p_root = [], p_dir = [], p_base = [], p_ext = [], p_name = []\<rparr>
      else
        (let isAbsolute = (path ! 0 = CHR ''/'');
             start = (if isAbsolute then 1 else 0);
             v = parse_loop path start (int (length path) - 1) parse_init;
             start' = (if startPart v = 0 \<and> isAbsolute then 1 else startPart v);
             whole = (startDot v = -1 \<or> preDotState v = 0 \<or>
                      (preDotState v = 1 \<and> startDot v = endPos v - 1 \<and>
                       startDot v = startPart v + 1))
         in \<lparr>p_root = (if isAbsolute then ''/'' else []),
             p_dir = (if startPart v > 0 then slice path 0 (startPart v - 1)
                      else if isAbsolute then ''/'' else []),
             p_base = (if endPos v = -1 then [] else slice path start' (endPos v)),
             p_ext = (if endPos v = -1 \<or> whole then [] else slice path (startDot v) (endPos v)),
             p_name = (if endPos v = -1 then []
                       else if whole then slice path start' (endPos v)
                       else slice path start' (startDot v))\<rparr>))"

text \<open>\<open>String.prototype.replace('.', '')\<close>: the first occurrence of the pattern is
  removed, the rest of the string stays.\<close>

fun replace_first_dot :: "string \<Rightarrow> string" where
  "replace_first_dot [] = []"
| "replace_first_dot (c # cs) = (if c = CHR ''.'' then cs else c # replace_first_dot cs)"

section \<open>Processing options and the two key functions\<close>

record ImageProcessingOptions =
  filename :: string
  width :: "jsnum option"
  height :: "jsnum option"
  format :: "string option"

text \<open>\<open>generateProcessedFilename\<close> of \<open>utils/imageProcessor.ts\<close>.\<close>

definition generateProcessedFilename :: "ImageProcessingOptions \<Rightarrow> string" where
  "generateProcessedFilename options =
     (let fileNameWithoutExt = p_name (path_parse (filename options));
          extension =
            (if truthy_str (format options) then the (format options)
             else if replace_first_dot (p_ext (path_parse (filename options))) \<noteq> []
               then replace_first_dot (p_ext (path_parse (filename options)))
             else ''jpg'');
          dimensions =
            (if truthy_num (width options) \<or> truthy_num (height options)
             then ''_'' @ (if truthy_num (width options) then num_to_string (the (width options)) else ''auto'')
                  @ ''x'' @ (if truthy_num (height options) then num_to_string (the (height options)) else ''auto'')
             else [])
      in fileNameWithoutExt @ dimensions @ ''.'' @ extension)"

text \<open>\<open>generateCacheKey\<close> of \<open>middleware/cache.ts\<close>, written out a second time there.\<close>

definition generateCacheKey :: "ImageProcessingOptions \<Rightarrow> string" where
  "generateCacheKey options =
     (let fileNameWithoutExt = p_name (path_parse (filename options));
          extension =
            (if truthy_str (format options) then the (format options)
             else if replace_first_dot (p_ext (path_parse (filename options))) \<noteq> []
               then replace_first_dot (p_ext (path_parse (filename options)))
             else ''jpg'');
          dimensions =
            (if truthy_num (width options) \<or> truthy_num (height options)
             then ''_'' @ (if truthy_num (width options) then num_to_string (the (width options)) else ''auto'')
                  @ ''x'' @ (if truthy_num (height options) then num_to_string (the (height options)) else ''auto'')
             else [])
      in fileNameWithoutExt @ dimensions @ ''.'' @ extension)"

section \<open>Node's \<open>path.join\<close> and \<open>path.resolve\<close> (POSIX)\<close>

text \<open>
  Paths are normalised segment by segment: an empty segment and \<open>.\<close> are dropped,
  \<open>..\<close> removes the segment before it (or is kept, for a relative path that climbs
  above its start), everything else is appended.
\<close>

fun split_slash :: "string \<Rightarrow> string list" where
  "split_slash [] = [[]]"
| "split_slash (c # cs) =
     (if c = CHR ''/'' then [] # split_slash cs
      else (case split_slash cs of [] \<Rightarrow> [[c]] | seg # segs \<Rightarrow> (c # seg) # segs))"

definition norm_step :: "bool \<Rightarrow> string list \<Rightarrow> string \<Rightarrow> string list" where
  "norm_step allowAboveRoot res seg =
     (if seg = [] \<or> seg = ''.'' then res
      else if seg = ''..'' then
        (if res \<noteq> [] \<and> last res \<noteq> ''..'' then butlast res
         else if allowAboveRoot then res @ [''..'']
         else res)
      else res @ [seg])"

fun join_slash :: "string list \<Rightarrow> string" where
  "join_slash [] = []"
| "join_slash [seg] = seg"
| "join_slash (seg # segs) = seg @ ''/'' @ join_slash segs"

definition normalizeString :: "string \<Rightarrow> bool \<Rightarrow> string" where
  "normalizeString path allowAboveRoot =
     join_slash (foldl (norm_step allowAboveRoot) [] (split_slash path))"

definition path_normalize :: "string \<Rightarrow> string" where
  "path_normalize path =
     (if path = [] then ''.''
      else
        (let isAbsolute = (hd path = CHR ''/'');
             trailingSeparator = (last path = CHR ''/'');
             p = normalizeString path (\<not> isAbsolute)
         in if p = [] then (if isAbsolute then ''/'' else if trailingSeparator then ''./'' else ''.'')
            else (if isAbsolute then ''/'' else []) @ p @ (if trailingSeparator then ''/'' else [])))"

definition path_join :: "string \<Rightarrow> string \<Rightarrow> string" where
  "path_join a b =
     (let joined = (if a = [] then b else if b = [] then a else a @ ''/'' @ b)
      in if joined = [] then ''.'' else path_normalize joined)"

text \<open>\<open>path.resolve\<close> walks its arguments from the last to the first, then the working
  directory, until the path built so far is absolute.\<close>

fun resolve_parts :: "string list \<Rightarrow> string \<Rightarrow> string \<times> bool" where
  "resolve_parts [] acc = (acc, False)"
| "resolve_parts (p # ps) acc =
     (if p = [] then resolve_parts ps acc
      else if hd p = CHR ''/'' then (p @ ''/'' @ acc, True)
      else resolve_parts ps (p @ ''/'' @ acc))"

definition path_resolve :: "string \<Rightarrow> string list \<Rightarrow> string" where
  "path_resolve cwd args =
     (case resolve_parts (rev args @ [cwd]) [] of
        (resolvedPath, resolvedAbsolute) \<Rightarrow>
          (let p = normalizeString resolvedPath (\<not> resolvedAbsolute)
           in if resolvedAbsolute then ''/'' @ p
              else if p \<noteq> [] then p else ''.''))"

text \<open>
  Where the application is installed: the working directory of the process and the
  directory that holds \<open>utils/\<close>, \<open>middleware/\<close> and \<open>routes/\<close> (\<open>src\<close>, or
  \<open>dist\<close> once compiled). \<open>__dirname\<close> of a module is its own directory below it.
\<close>

record site =
  cwd :: string
  appdir :: string

definition dirname_utils :: "site \<Rightarrow> string" where
  "dirname_utils s = appdir s @ ''/utils''"

definition dirname_middleware :: "site \<Rightarrow> string" where
  "dirname_middleware s = appdir s @ ''/middleware''"

text \<open>The folder constants of \<open>utils/imageProcessor.ts\<close>.\<close>

definition inputFolder :: "site \<Rightarrow> string" where
  "inputFolder s = path_resolve (cwd s) [dirname_utils s, ''../../images'']"

definition outputFolder :: "site \<Rightarrow> string" where
  "outputFolder s = path_resolve (cwd s) [dirname_utils s, ''../../public/images/processed'']"

text \<open>The folder constant of \<open>middleware/cache.ts\<close>, resolved from that module's own
  directory.\<close>

definition cache_outputFolder :: "site \<Rightarrow> string" where
  "cache_outputFolder s =
     path_resolve (cwd s) [dirname_middleware s, ''../../public/images/processed'']"

section \<open>Request parameters\<close>

text \<open>
  \<open>parseInt\<close> with no radix: leading white space is skipped, a sign is read, a \<open>0x\<close>
  or \<open>0X\<close> prefix selects base 16, and the longest run of digits of the base gives the
  value; with no digit the result is \<open>NaN\<close>. Two limits of the model: the white
  space skipped is the ASCII one (tab, line feed, vertical tab, form feed, carriage
  return, space), not the Unicode spaces JavaScript skips as well; and the value is the
  exact integer, where JavaScript rounds to a double beyond \<open>2^53\<close>.
\<close>

definition is_ws :: "char \<Rightarrow> bool" where
  "is_ws c = (of_char c \<in> {9, 10, 11, 12, 13, 32 :: nat})"

definition digit_val :: "char \<Rightarrow> nat option" where
  "digit_val c =
     (let n = (of_char c :: nat)
      in if 48 \<le> n \<and> n \<le> 57 then Some (n - 48)
         else if 97 \<le> n \<and> n \<le> 122 then Some (n - 87)
         else if 65 \<le> n \<and> n \<le> 90 then Some (n - 55)
         else None)"

definition is_digit_of :: "nat \<Rightarrow> char \<Rightarrow> bool" where
  "is_digit_of R c = (case digit_val c of None \<Rightarrow> False | Some d \<Rightarrow> d < R)"

definition parseInt :: "string \<Rightarrow> jsnum" where
  "parseInt input =
     (let S = dropWhile is_ws input;
          sign = (if S \<noteq> [] \<and> hd S = CHR ''-'' then - 1 else 1 :: int);
          S1 = (if S \<noteq> [] \<and> (hd S = CHR ''+'' \<or> hd S = CHR ''-'') then tl S else S);
          hex = (take 2 S1 = ''0x'' \<or> take 2 S1 = ''0X'');
          R = (if hex then 16 else 10 :: nat);
          S2 = (if hex then drop 2 S1 else S1);
          Z = takeWhile (is_digit_of R) S2
      in if Z = [] then NaN
         else Fin (sign * int (foldl (\<lambda>acc c. acc * R + the (digit_val c)) 0 Z)))"

text \<open>The query string of a request: each parameter is a string or missing, as the
  casts of the code (\<open>req.query.filename as string\<close>) take it to be.\<close>

record query =
  q_filename :: "string option"
  q_width :: "string option"
  q_height :: "string option"
  q_format :: "string option"

text \<open>
  The options object both the middleware and the route handler build from the query.
  A missing \<open>filename\<close> is kept as the empty string: the code only ever tests it with
  \<open>!options.filename\<close>, which holds for \<open>undefined\<close> and for \<open>""\<close> alike.
\<close>

definition query_options :: "query \<Rightarrow> ImageProcessingOptions" where
  "query_options q =
     \<lparr>filename = (case q_filename q of None \<Rightarrow> [] | Some f \<Rightarrow> f),
      width = (if truthy_str (q_width q) then Some (parseInt (the (q_width q))) else None),
      height = (if truthy_str (q_height q) then Some (parseInt (the (q_height q))) else None),
      format = q_format q\<rparr>"

section \<open>The file system and the codec\<close>

text \<open>
  What a probe of a path finds: nothing, an entry that cannot be accessed (the probe
  fails with a storage error), a complete file or directory, or a file cut short by
  a write that failed.
\<close>

datatype node = Missing | Inaccessible | Intact | Truncated

text \<open>One run of the \<open>sharp\<close> pipeline, with the arguments the code gives it, and how it
  can end. The string of a failure is the thrown error as a template literal renders it.\<close>

record sharp_call =
  sc_input :: string
  sc_resize :: "(jsnum option \<times> jsnum option) option"
  sc_format :: "string option"
  sc_output :: string

datatype sharp_outcome = Written | Failed string | FailedPartial string

datatype event =
    CheckCache ImageProcessingOptions
  | ProcessImage ImageProcessingOptions
  | SharpRun sharp_call

text \<open>
  The world a request runs in: the disk, whether creating the output directory fails
  (and with which error), how the codec answers each call, and the calls made so far.
  The list of calls is kept for the statements only (which component ran, with which
  arguments); the code keeps no such list.
\<close>

record world =
  disk :: "string \<Rightarrow> node"
  mkdir_error :: "string option"
  sharp :: "sharp_call \<Rightarrow> sharp_outcome"
  calls :: "event list"

text \<open>\<open>fs.existsSync\<close> answers \<open>false\<close> for a missing path and for any error of the
  probe; \<open>fs.promises.access\<close> rejects in the same cases.\<close>

definition existsSync :: "world \<Rightarrow> string \<Rightarrow> bool" where
  "existsSync w p = (disk w p = Intact \<or> disk w p = Truncated)"

definition record_call :: "event \<Rightarrow> world \<Rightarrow> world" where
  "record_call e w = w\<lparr>calls := calls w @ [e]\<rparr>"

definition write_node :: "string \<Rightarrow> node \<Rightarrow> world \<Rightarrow> world" where
  "write_node p n w = w\<lparr>disk := (disk w)(p := n)\<rparr>"

section \<open>The cache layer (\<open>middleware/cache.ts\<close>)\<close>

text \<open>
  \<open>checkCache\<close> returns the cached path or \<open>null\<close>. Its \<open>catch\<close> returns \<open>null\<close> as
  well; for a filename that is a string nothing in its \<open>try\<close> block throws, since
  \<open>existsSync\<close> turns a failing probe into \<open>false\<close> itself. For the same reason the
  \<open>catch\<close> of the middleware, which hands the error to \<open>next\<close>, has no branch here.
\<close>

definition checkCache :: "site \<Rightarrow> world \<Rightarrow> ImageProcessingOptions \<Rightarrow> string option" where
  "checkCache s w options =
     (let cachedFilename = generateCacheKey options;
          cachedFilePath = path_join (cache_outputFolder s) cachedFilename
      in if existsSync w cachedFilePath then Some cachedFilePath else None)"

datatype response = Send nat string | SendFile string

datatype middleware_result = Responded response | Next ImageProcessingOptions

definition cacheMiddleware :: "site \<Rightarrow> world \<Rightarrow> query \<Rightarrow> middleware_result \<times> world" where
  "cacheMiddleware s w q =
     (let options = query_options q
      in if filename options = [] then
           (Responded (Send 400 ''Missing required parameter: filename''), w)
         else
           (case checkCache s w options of
              Some cachedFilePath \<Rightarrow>
                (Responded (SendFile cachedFilePath), record_call (CheckCache options) w)
            | None \<Rightarrow> (Next options, record_call (CheckCache options) w)))"

section \<open>The image transformer (\<open>utils/imageProcessor.ts\<close>)\<close>

text \<open>An \<open>Error\<close> object is its message; in a template literal it renders as
  \<open>Error: \<close> followed by the message.\<close>

definition error_to_string :: "string \<Rightarrow> string" where
  "error_to_string msg = ''Error: '' @ msg"

text \<open>
  \<open>fs.promises.mkdir(path, { recursive: true })\<close>: when it succeeds, the directory and
  every parent directory of it that was not there exist; entries that were there stay as
  they were. The parents of a path are its prefixes that end before a separator.
\<close>

definition parent_paths :: "string \<Rightarrow> string list" where
  "parent_paths p = map (\<lambda>i. take i p) (filter (\<lambda>i. p ! i = CHR ''/'') [1..<length p])"

definition mkdir_chain :: "string \<Rightarrow> string list" where
  "mkdir_chain p = parent_paths p @ [p]"

definition mkdir_recursive :: "string \<Rightarrow> world \<Rightarrow> world" where
  "mkdir_recursive p w =
     w\<lparr>disk := (\<lambda>q. if q \<in> set (mkdir_chain p) \<and> \<not> existsSync w q then Intact
                       else disk w q)\<rparr>"

definition ensureOutputFolderExists :: "site \<Rightarrow> world \<Rightarrow> (string + unit) \<times> world" where
  "ensureOutputFolderExists s w =
     (if \<not> existsSync w (outputFolder s) then
        (case mkdir_error w of
           None \<Rightarrow> (Inr (), mkdir_recursive (outputFolder s) w)
         | Some e \<Rightarrow> (Inl (''Failed to create output directory: '' @ e), w))
      else (Inr (), w))"

definition run_sharp :: "sharp_call \<Rightarrow> world \<Rightarrow> (string + unit) \<times> world" where
  "run_sharp c w =
     (case sharp w c of
        Written \<Rightarrow> (Inr (), write_node (sc_output c) Intact (record_call (SharpRun c) w))
      | Failed e \<Rightarrow> (Inl e, record_call (SharpRun c) w)
      | FailedPartial e \<Rightarrow>
          (Inl e, write_node (sc_output c) Truncated (record_call (SharpRun c) w)))"

definition processImage ::
  "site \<Rightarrow> world \<Rightarrow> ImageProcessingOptions \<Rightarrow> (string + string) \<times> world" where
  "processImage s w0 options =
     (let w = record_call (ProcessImage options) w0
      in case ensureOutputFolderExists s w of
           (Inl msg, w1) \<Rightarrow> (Inl (''Failed to process image: '' @ error_to_string msg), w1)
         | (Inr _, w1) \<Rightarrow>
             (let inputPath = path_join (inputFolder s) (filename options);
                  outputFilename = generateProcessedFilename options;
                  outputPath = path_join (outputFolder s) outputFilename
              in if \<not> existsSync w1 inputPath then
                   (Inl (''Failed to process image: ''
                         @ error_to_string (''Input file not found: '' @ inputPath)), w1)
                 else
                   (case run_sharp
                           \<lparr>sc_input = inputPath,
                            sc_resize =
                              (if truthy_num (width options) \<or> truthy_num (height options)
                               then Some (width options, height options) else None),
                            sc_format =
                              (if truthy_str (format options) then format options else None),
                            sc_output = outputPath\<rparr> w1 of
                      (Inl e, w2) \<Rightarrow> (Inl (''Failed to process image: '' @ e), w2)
                    | (Inr _, w2) \<Rightarrow> (Inr outputPath, w2))))"

definition imageExists :: "site \<Rightarrow> world \<Rightarrow> string \<Rightarrow> bool" where
  "imageExists s w name = existsSync w (path_join (inputFolder s) name)"

section \<open>The route (\<open>routes/images/index.ts\<close>)\<close>

text \<open>
  The handler answers with a status and a text, or sends a file. A rejection of
  \<open>processImage\<close> lands in its \<open>catch\<close>, which answers 500 with the error rendered
  in the text.
\<close>

fun is_nan :: "jsnum \<Rightarrow> bool" where
  "is_nan NaN = True"
| "is_nan (Fin n) = False"

fun not_positive :: "jsnum \<Rightarrow> bool" where
  "not_positive NaN = False"
| "not_positive (Fin n) = (n \<le> 0)"

definition invalid_dimension :: "jsnum option \<Rightarrow> bool" where
  "invalid_dimension d = (case d of None \<Rightarrow> False | Some n \<Rightarrow> is_nan n \<or> not_positive n)"

definition routeHandler ::
  "site \<Rightarrow> world \<Rightarrow> ImageProcessingOptions option \<Rightarrow> query \<Rightarrow> response \<times> world" where
  "routeHandler s w locals q =
     (let options = (case locals of Some opts \<Rightarrow> opts | None \<Rightarrow> query_options q)
      in if filename options = [] then (Send 400 ''Missing required parameter: filename'', w)
         else if \<not> imageExists s w (filename options) then
           (Send 404 (''Image '' @ [CHR 0x27] @ filename options @ [CHR 0x27] @ '' not found''), w)
         else if invalid_dimension (width options) \<or> invalid_dimension (height options) then
           (Send 400 ''Width and height must be positive numbers'', w)
         else
           (case processImage s w options of
              (Inr processedImagePath, w') \<Rightarrow> (SendFile processedImagePath, w')
            | (Inl msg, w') \<Rightarrow>
                (Send 500 (''Internal server error: '' @ error_to_string msg), w')))"

text \<open>\<open>router.get('/', cacheMiddleware, handler)\<close>: the handler runs when the middleware
  calls \<open>next()\<close>, with the options the middleware left in \<open>res.locals\<close>.\<close>

definition handleRequest :: "site \<Rightarrow> world \<Rightarrow> query \<Rightarrow> response \<times> world" where
  "handleRequest s w q =
     (case cacheMiddleware s w q of
        (Responded r, w') \<Rightarrow> (r, w')
      | (Next options, w') \<Rightarrow> routeHandler s w' (Some options) q)"

section \<open>Definitions used by the statements\<close>

text \<open>The two local bindings of the key functions, named so that statements can refer
  to the segments of a key.\<close>

definition key_extension :: "ImageProcessingOptions \<Rightarrow> string" where
  "key_extension options =
     (if truthy_str (format options) then the (format options)
      else if replace_first_dot (p_ext (path_parse (filename options))) \<noteq> []
        then replace_first_dot (p_ext (path_parse (filename options)))
      else ''jpg'')"

definition key_dimensions :: "ImageProcessingOptions \<Rightarrow> string" where
  "key_dimensions options =
     (if truthy_num (width options) \<or> truthy_num (height options)
      then ''_'' @ (if truthy_num (width options) then num_to_string (the (width options)) else ''auto'')
           @ ''x'' @ (if truthy_num (height options) then num_to_string (the (height options)) else ''auto'')
      else [])"

text \<open>
  The request invariant of the data model: a width or a height that is present is a
  positive integer, and a format that is present names an encoding (it is not the empty
  string).
\<close>

fun positive_or_absent :: "jsnum option \<Rightarrow> bool" where
  "positive_or_absent None = True"
| "positive_or_absent (Some NaN) = False"
| "positive_or_absent (Some (Fin n)) = (0 < n)"

definition valid_request :: "ImageProcessingOptions \<Rightarrow> bool" where
  "valid_request r =
     (positive_or_absent (width r) \<and> positive_or_absent (height r) \<and> format r \<noteq> Some [])"

text \<open>
  The key as the claim words it. The filename without its extension is the text before
  its last dot, and the whole filename when it has no dot; the extension without the dot
  is the text after the last dot. The extension of the key is the requested format if
  one is given, else the file's own extension, else \<open>jpg\<close>; the dimension suffix is
  empty when neither dimension is given, and spells a missing dimension \<open>auto\<close>.
\<close>

definition stripped_filename :: "string \<Rightarrow> string" where
  "stripped_filename f =
     (if CHR ''.'' \<in> set f then rev (tl (dropWhile (\<lambda>c. c \<noteq> CHR ''.'') (rev f))) else f)"

definition filename_extension :: "string \<Rightarrow> string" where
  "filename_extension f =
     (if CHR ''.'' \<in> set f then rev (takeWhile (\<lambda>c. c \<noteq> CHR ''.'') (rev f)) else [])"

definition spec_dims :: "ImageProcessingOptions \<Rightarrow> string" where
  "spec_dims r =
     (if width r = None \<and> height r = None then []
      else ''_'' @ (case width r of None \<Rightarrow> ''auto'' | Some n \<Rightarrow> num_to_string n)
           @ ''x'' @ (case height r of None \<Rightarrow> ''auto'' | Some n \<Rightarrow> num_to_string n))"

definition claimed_key :: "ImageProcessingOptions \<Rightarrow> string" where
  "claimed_key r =
     stripped_filename (filename r) @ spec_dims r @ ''.'' @
     (case format r of
        Some fmt \<Rightarrow> fmt
      | None \<Rightarrow>
          (if filename_extension (filename r) \<noteq> [] then filename_extension (filename r)
           else ''jpg''))"

text \<open>
  The same formula with the base and the extension that \<open>path.parse\<close> gives: the
  \<open>name\<close> of the last path component, and its \<open>ext\<close> without the dot.
\<close>

definition parsed_ext :: "ImageProcessingOptions \<Rightarrow> string" where
  "parsed_ext r =
     (case format r of
        Some fmt \<Rightarrow> fmt
      | None \<Rightarrow>
          (if drop 1 (p_ext (path_parse (filename r))) \<noteq> []
           then drop 1 (p_ext (path_parse (filename r)))
           else ''jpg''))"

definition parsed_key :: "ImageProcessingOptions \<Rightarrow> string" where
  "parsed_key r = p_name (path_parse (filename r)) @ spec_dims r @ ''.'' @ parsed_ext r"

text \<open>
  The invariant of the scan of \<open>path.parse\<close> and what holds of its result. The segment
  scanned so far runs from the current index to \<open>endPos\<close> and holds no separator; the
  dot found, if any, lies inside it.
\<close>

definition seg_start :: "int \<Rightarrow> parse_vars \<Rightarrow> int" where
  "seg_start start v = (if startPart v = 0 then start else startPart v)"

definition parse_inv :: "string \<Rightarrow> int \<Rightarrow> int \<Rightarrow> parse_vars \<Rightarrow> bool" where
  "parse_inv path start i v =
     (0 \<le> start \<and> start - 1 \<le> i \<and> i < int (length path) \<and> startPart v = 0 \<and>
      (endPos v = -1 \<and> startDot v = -1 \<and> matchedSlash v
       \<or> \<not> matchedSlash v \<and> i < endPos v \<and> endPos v \<le> int (length path) \<and>
         (\<forall>k. i < k \<and> k < endPos v \<longrightarrow> path ! nat k \<noteq> CHR ''/'') \<and>
         (startDot v = -1 \<or>
          i < startDot v \<and> startDot v < endPos v \<and> path ! nat (startDot v) = CHR ''.'')))"

definition parse_post :: "string \<Rightarrow> int \<Rightarrow> parse_vars \<Rightarrow> bool" where
  "parse_post path start v =
     (0 \<le> seg_start start v \<and> start \<le> seg_start start v \<and>
      (endPos v = -1 \<and> startDot v = -1
       \<or> seg_start start v \<le> endPos v \<and> endPos v \<le> int (length path) \<and>
         (\<forall>k. seg_start start v \<le> k \<and> k < endPos v \<longrightarrow> path ! nat k \<noteq> CHR ''/'') \<and>
         (startDot v = -1 \<or>
          seg_start start v \<le> startDot v \<and> startDot v < endPos v \<and>
          path ! nat (startDot v) = CHR ''.'')))"

text \<open>Concrete requests, an installation and disks for the instances below.\<close>

definition sample_resized :: ImageProcessingOptions where
  "sample_resized =
     \<lparr>filename = ''sample.jpg'', width = Some (Fin 300), height = Some (Fin 200), format = None\<rparr>"

definition sample_png :: ImageProcessingOptions where
  "sample_png = \<lparr>filename = ''sample.jpg'', width = None, height = None, format = Some ''png''\<rparr>"

definition nested_resized :: ImageProcessingOptions where
  "nested_resized =
     \<lparr>filename = ''photos/sample.jpg'', width = Some (Fin 300), height = Some (Fin 200),
      format = None\<rparr>"

definition hidden_name :: ImageProcessingOptions where
  "hidden_name = \<lparr>filename = ''.hidden'', width = None, height = None, format = None\<rparr>"

definition nested_name :: ImageProcessingOptions where
  "nested_name = \<lparr>filename = ''a/b.jpg'', width = None, height = None, format = None\<rparr>"

text \<open>
  Names for the paths and worlds a run of the transformer passes through: the input and
  the target path, the one call it makes to the codec, whether the output directory is
  there or can be made, the world once the directory step has succeeded, the world once
  the codec has been called, and the calls a run has added to a world.
\<close>

definition new_calls :: "world \<Rightarrow> world \<Rightarrow> event list" where
  "new_calls w w' = drop (length (calls w)) (calls w')"

definition target_path :: "site \<Rightarrow> ImageProcessingOptions \<Rightarrow> string" where
  "target_path s r = path_join (outputFolder s) (generateProcessedFilename r)"

definition input_path :: "site \<Rightarrow> ImageProcessingOptions \<Rightarrow> string" where
  "input_path s r = path_join (inputFolder s) (filename r)"

definition folder_ready :: "site \<Rightarrow> world \<Rightarrow> bool" where
  "folder_ready s w = (existsSync w (outputFolder s) \<or> mkdir_error w = None)"

definition codec_call :: "site \<Rightarrow> ImageProcessingOptions \<Rightarrow> sharp_call" where
  "codec_call s r =
     \<lparr>sc_input = input_path s r,
      sc_resize = (if truthy_num (width r) \<or> truthy_num (height r)
                   then Some (width r, height r) else None),
      sc_format = (if truthy_str (format r) then format r else None),
      sc_output = target_path s r\<rparr>"

definition after_folder :: "site \<Rightarrow> world \<Rightarrow> ImageProcessingOptions \<Rightarrow> world" where
  "after_folder s w r = snd (ensureOutputFolderExists s (record_call (ProcessImage r) w))"

definition after_codec :: "site \<Rightarrow> world \<Rightarrow> ImageProcessingOptions \<Rightarrow> world" where
  "after_codec s w r = record_call (SharpRun (codec_call s r)) (after_folder s w r)"

text \<open>An installation under \<open>/srv/app\<close>, with its disks and requests.\<close>

definition example_site :: site where
  "example_site = \<lparr>cwd = ''/srv/app'', appdir = ''/srv/app/src''\<rparr>"

definition disk_with :: "string list \<Rightarrow> string \<Rightarrow> node" where
  "disk_with present p = (if p \<in> set present then Intact else Missing)"

definition out_dir :: string where
  "out_dir = ''/srv/app/public/images/processed''"

definition sample_src :: string where
  "sample_src = ''/srv/app/images/sample.jpg''"

definition ghost_src :: string where
  "ghost_src = ''/srv/app/images/ghost.jpg''"

definition resized_artifact :: string where
  "resized_artifact = ''/srv/app/public/images/processed/sample_300xauto.jpg''"

definition plain_artifact :: string where
  "plain_artifact = ''/srv/app/public/images/processed/sample.jpg''"

definition ghost_artifact :: string where
  "ghost_artifact = ''/srv/app/public/images/processed/ghost_300xauto.jpg''"

definition ghost_not_found :: string where
  "ghost_not_found = ''Image '' @ [CHR 0x27] @ ''ghost.jpg'' @ [CHR 0x27] @ '' not found''"

text \<open>A world with the given disk, a codec that always writes, and no call made yet.\<close>

definition world_of :: "(string \<Rightarrow> node) \<Rightarrow> world" where
  "world_of d = \<lparr>disk = d, mkdir_error = None, sharp = (\<lambda>c. Written), calls = []\<rparr>"

definition world_fresh :: world where
  "world_fresh = world_of (disk_with [out_dir, sample_src])"

definition world_cached_plain :: world where
  "world_cached_plain = world_of (disk_with [out_dir, sample_src, out_dir @ ''/sample.jpg''])"

definition world_cached_resized :: world where
  "world_cached_resized =
     world_of (disk_with [out_dir, sample_src, out_dir @ ''/sample_300xauto.jpg''])"

definition world_orphan_cache :: world where
  "world_orphan_cache = world_of (disk_with [out_dir, out_dir @ ''/ghost_300xauto.jpg''])"

definition world_no_source :: world where
  "world_no_source = world_of (disk_with [out_dir])"

definition world_readonly :: world where
  "world_readonly =
     (world_of (disk_with []))\<lparr>mkdir_error := Some ''Error: EACCES: permission denied''\<rparr>"

definition world_disk_full :: world where
  "world_disk_full =
     (world_of (disk_with [out_dir, sample_src]))
       \<lparr>sharp := (\<lambda>c. FailedPartial ''Error: ENOSPC: no space left on device'')\<rparr>"

definition world_codec_rejects :: world where
  "world_codec_rejects =
     (world_of (disk_with [out_dir, sample_src]))
       \<lparr>sharp := (\<lambda>c. Failed ''Error: Input file contains unsupported image format'')\<rparr>"

definition world_unreadable_cache :: world where
  "world_unreadable_cache =
     world_of ((disk_with [out_dir, sample_src])(out_dir @ ''/sample_300xauto.jpg'' := Inaccessible))"

definition world_bare :: world where
  "world_bare = world_of (disk_with [''/srv/app/images/sample.jpg''])"

definition parent_request :: ImageProcessingOptions where
  "parent_request = \<lparr>filename = ''../public'', width = None, height = None, format = None\<rparr>"

definition q_of :: "string option \<Rightarrow> string option \<Rightarrow> query" where
  "q_of f w = \<lparr>q_filename = f, q_width = w, q_height = None, q_format = None\<rparr>"

definition q_sample_300 :: query where
  "q_sample_300 = q_of (Some ''sample.jpg'') (Some ''300'')"

definition q_sample_bad :: query where
  "q_sample_bad = q_of (Some ''sample.jpg'') (Some ''notanumber'')"

definition q_ghost_300 :: query where
  "q_ghost_300 = q_of (Some ''ghost.jpg'') (Some ''300'')"

definition q_ghost_bad :: query where
  "q_ghost_bad = q_of (Some ''ghost.jpg'') (Some ''notanumber'')"

definition q_none :: query where
  "q_none = q_of None None"

definition ghost_options :: ImageProcessingOptions where
  "ghost_options = \<lparr>filename = ''ghost.jpg'', width = Some (Fin 300), height = None, format = None\<rparr>"

definition sample_w300 :: ImageProcessingOptions where
  "sample_w300 = \<lparr>filename = ''sample.jpg'', width = Some (Fin 300), height = None, format = None\<rparr>"

section \<open>Properties of \<open>path.parse\<close>\<close>

declare parse_loop.simps [simp del]

lemma parse_loop_post:
  "parse_inv path start i v \<Longrightarrow> parse_post path start (parse_loop path start i v)"
proof (induction path start i v rule: parse_loop.induct)
  case (1 path start i v)
  show ?case
  proof (cases "i < start")
    case True
    with "1.prems" show ?thesis
      apply (subst parse_loop.simps)
      apply (auto simp: parse_inv_def parse_post_def seg_start_def)
      done
  next
    case ge: False
    show ?thesis
    proof (cases "path ! nat i = CHR ''/''")
      case slash: True
      show ?thesis
      proof (cases "matchedSlash v")
        case True
        have "parse_inv path start (i - 1) v"
          using "1.prems" ge slash True by (auto simp: parse_inv_def)
        from "1.IH"(1)[OF ge slash _ this] True
        show ?thesis using ge slash by (subst parse_loop.simps) simp
      next
        case False
        with "1.prems" ge slash show ?thesis
          apply (subst parse_loop.simps)
          apply (auto simp: parse_inv_def parse_post_def seg_start_def)
          done
      qed
    next
      case noslash: False
      define v1 where "v1 = (if endPos v = -1 then v\<lparr>endPos := i + 1, matchedSlash := False\<rparr> else v)"
      define v2 where "v2 = (if path ! nat i = CHR ''.'' then
                     (if startDot v1 = -1 then v1\<lparr>startDot := i\<rparr>
                      else if preDotState v1 \<noteq> 1 then v1\<lparr>preDotState := 1\<rparr>
                      else v1)
                   else if startDot v1 \<noteq> -1 then v1\<lparr>preDotState := -1\<rparr>
                   else v1)"
      have inv2: "parse_inv path start (i - 1) v2"
      proof -
        have eqi: "\<And>k. i - 1 < k \<Longrightarrow> k \<le> i \<Longrightarrow> k = i" by simp
        have step: "\<And>k. i - 1 < k \<Longrightarrow> \<not> i < k \<Longrightarrow> k = i" by simp
        show ?thesis
          using "1.prems" ge noslash
          unfolding parse_inv_def v2_def v1_def
          by (auto dest: step eqi)
      qed
      have "parse_post path start (parse_loop path start (i - 1) v2)"
        using "1.IH"(2)[OF ge noslash v1_def v2_def inv2] .
      moreover have "parse_loop path start i v = parse_loop path start (i - 1) v2"
        using ge noslash by (subst parse_loop.simps) (simp add: v1_def v2_def Let_def)
      ultimately show ?thesis by simp
    qed
  qed
qed


lemma parse_init_inv:
  "path \<noteq> [] \<Longrightarrow> start = 0 \<or> start = 1 \<Longrightarrow> parse_inv path start (int (length path) - 1) parse_init"
  by (cases path) (auto simp: parse_inv_def parse_init_def)

lemma parse_scan_post:
  assumes "path \<noteq> []"
  shows "parse_post path (if path ! 0 = CHR ''/'' then 1 else 0)
           (parse_loop path (if path ! 0 = CHR ''/'' then 1 else 0) (int (length path) - 1) parse_init)"
  by (rule parse_loop_post, rule parse_init_inv[OF assms]) simp

lemma seg_start_eq:
  "(if startPart v = 0 \<and> isAbs then 1 else startPart v) = seg_start (if isAbs then 1 else 0) v"
  by (simp add: seg_start_def)

lemma slice_append: "0 \<le> a \<Longrightarrow> a \<le> b \<Longrightarrow> b \<le> c \<Longrightarrow> slice s a b @ slice s b c = slice s a c"
proof -
  assume h: "0 \<le> a" "a \<le> b" "b \<le> c"
  have "drop (nat b) s = drop (nat b - nat a) (drop (nat a) s)" using h by simp
  moreover have "nat c - nat a = (nat b - nat a) + (nat c - nat b)" using h by simp
  ultimately show ?thesis
    unfolding slice_def by (simp only: take_add)
qed

lemma slice_set: "0 \<le> a \<Longrightarrow> b \<le> int (length s) \<Longrightarrow> c \<in> set (slice s a b) \<Longrightarrow> \<exists>k. a \<le> k \<and> k < b \<and> s ! nat k = c"
proof -
  assume h: "0 \<le> a" "b \<le> int (length s)" "c \<in> set (slice s a b)"
  then obtain j where j: "j < length (slice s a b)" "slice s a b ! j = c"
    by (auto simp: in_set_conv_nth)
  have "j < nat b - nat a" using j(1) by (simp add: slice_def)
  moreover have "slice s a b ! j = s ! (nat a + j)" using j(1) h by (simp add: slice_def)
  ultimately show ?thesis using j(2) h
    by (intro exI[of _ "a + int j"]) (auto simp: nat_add_distrib)
qed

lemma slice_head: "0 \<le> a \<Longrightarrow> a < b \<Longrightarrow> b \<le> int (length s) \<Longrightarrow> slice s a b = s ! nat a # slice s (a + 1) b"
proof -
  assume h: "0 \<le> a" "a < b" "b \<le> int (length s)"
  have "nat a < length s" using h by simp
  then have "drop (nat a) s = s ! nat a # drop (Suc (nat a)) s" by (simp add: Cons_nth_drop_Suc)
  moreover have "nat b - nat a = Suc (nat b - Suc (nat a))" using h by simp
  moreover have "nat (a + 1) = Suc (nat a)" using h by simp
  ultimately show ?thesis by (simp add: slice_def)
qed

lemma slice_sub: "s = take (nat a) s @ slice s a b @ drop (nat a + (nat b - nat a)) s"
proof -
  have "drop (nat a + (nat b - nat a)) s = drop (nat b - nat a) (drop (nat a) s)"
    by (simp add: add.commute)
  then show ?thesis
    unfolding slice_def by (simp only: append_take_drop_id)
qed

lemma slice_empty: "slice s a a = []"
  by (simp add: slice_def)

lemma path_parse_shape:
  "\<exists>a d e. 0 \<le> a \<and> a \<le> d \<and> d \<le> e \<and> e \<le> int (length f) \<and>
     (\<forall>k. a \<le> k \<and> k < e \<longrightarrow> f ! nat k \<noteq> CHR ''/'') \<and>
     p_base (path_parse f) = slice f a e \<and>
     p_name (path_parse f) = slice f a d \<and>
     p_ext (path_parse f) = slice f d e \<and>
     (d = e \<or> f ! nat d = CHR ''.'')"
proof (cases "f = []")
  case True
  then show ?thesis
    by (intro exI[of _ 0]) (auto simp: path_parse_def slice_def)
next
  case False
  define st :: int where "st = (if f ! 0 = CHR ''/'' then 1 else 0)"
  define v where "v = parse_loop f st (int (length f) - 1) parse_init"
  define a where "a = seg_start st v"
  define whole where "whole = (startDot v = -1 \<or> preDotState v = 0 \<or>
                      (preDotState v = 1 \<and> startDot v = endPos v - 1 \<and>
                       startDot v = startPart v + 1))"
  have post: "parse_post f st v"
    unfolding st_def v_def by (rule parse_scan_post[OF False])
  have a_eq: "(if startPart v = 0 \<and> f ! 0 = CHR ''/'' then 1 else startPart v) = a"
    unfolding a_def st_def by (rule seg_start_eq)
  have base: "p_base (path_parse f) = (if endPos v = -1 then [] else slice f a (endPos v))"
    and ext: "p_ext (path_parse f) = (if endPos v = -1 \<or> whole then [] else slice f (startDot v) (endPos v))"
    and name: "p_name (path_parse f) =
        (if endPos v = -1 then [] else if whole then slice f a (endPos v) else slice f a (startDot v))"
    using False a_eq
    unfolding path_parse_def Let_def whole_def v_def st_def by simp_all
  have a0: "0 \<le> a" using post by (simp add: parse_post_def a_def)
  show ?thesis
  proof (cases "endPos v = -1")
    case True
    show ?thesis
      using True base ext name
      by (intro exI[of _ 0]) (auto simp: slice_empty)
  next
    case e: False
    have range: "a \<le> endPos v" "endPos v \<le> int (length f)"
      and ns: "\<forall>k. a \<le> k \<and> k < endPos v \<longrightarrow> f ! nat k \<noteq> CHR ''/''"
      and dot: "startDot v = -1 \<or> a \<le> startDot v \<and> startDot v < endPos v \<and> f ! nat (startDot v) = CHR ''.''"
      using post e unfolding parse_post_def a_def by auto
    show ?thesis
    proof (cases whole)
      case True
      show ?thesis
        using True e base ext name a0 range ns
        by (intro exI[of _ a] exI[of _ "endPos v"]) (simp add: slice_empty)
    next
      case False
      then have "startDot v \<noteq> -1" by (auto simp: whole_def)
      with dot have d: "a \<le> startDot v" "startDot v < endPos v" "f ! nat (startDot v) = CHR ''.''"
        by auto
      show ?thesis
        using False e base ext name a0 range ns d
        by (intro exI[of _ a] exI[of _ "startDot v"] exI[of _ "endPos v"]) simp
    qed
  qed
qed

lemma path_parse_base: "p_name (path_parse f) @ p_ext (path_parse f) = p_base (path_parse f)"
proof -
  from path_parse_shape[of f] obtain a d e where
    "0 \<le> a" "a \<le> d" "d \<le> e"
    "p_base (path_parse f) = slice f a e" "p_name (path_parse f) = slice f a d"
    "p_ext (path_parse f) = slice f d e"
    by blast
  then show ?thesis by (simp add: slice_append)
qed

lemma path_parse_ext_dot:
  "p_ext (path_parse f) = [] \<or> (\<exists>rest. p_ext (path_parse f) = CHR ''.'' # rest)"
proof -
  from path_parse_shape[of f] obtain a d e where h:
    "0 \<le> a" "a \<le> d" "d \<le> e" "e \<le> int (length f)"
    "p_ext (path_parse f) = slice f d e" "d = e \<or> f ! nat d = CHR ''.''"
    by blast
  show ?thesis
  proof (cases "d = e")
    case True
    then show ?thesis using h by (simp add: slice_empty)
  next
    case False
    then have "d < e" "0 \<le> d" "f ! nat d = CHR ''.''" using h by auto
    then show ?thesis using h(4,5) slice_head[of d e f] by simp
  qed
qed

lemma path_parse_name_no_slash: "CHR ''/'' \<notin> set (p_name (path_parse f))"
proof
  assume in_name: "CHR ''/'' \<in> set (p_name (path_parse f))"
  from path_parse_shape[of f] obtain a d e where h:
    "0 \<le> a" "a \<le> d" "d \<le> e" "e \<le> int (length f)"
    "\<forall>k. a \<le> k \<and> k < e \<longrightarrow> f ! nat k \<noteq> CHR ''/''"
    "p_name (path_parse f) = slice f a d"
    by blast
  have "d \<le> int (length f)" using h by simp
  from slice_set[OF h(1) this] in_name h(6)
  obtain k where "a \<le> k" "k < d" "f ! nat k = CHR ''/''" by auto
  with h show False by auto
qed

lemma path_parse_base_sub: "\<exists>pre suf. f = pre @ p_base (path_parse f) @ suf"
proof -
  from path_parse_shape[of f] obtain a e where "p_base (path_parse f) = slice f a e"
    by blast
  then show ?thesis using slice_sub[of f a e] by metis
qed

lemma parse_loop_no_slash:
  "0 \<le> start \<Longrightarrow> \<forall>k. start \<le> k \<and> k \<le> i \<longrightarrow> path ! nat k \<noteq> CHR ''/'' \<Longrightarrow>
   startPart (parse_loop path start i v) = startPart v \<and>
   endPos (parse_loop path start i v) = (if endPos v = -1 \<and> start \<le> i then i + 1 else endPos v)"
proof (induction path start i v rule: parse_loop.induct)
  case (1 path start i v)
  show ?case
  proof (cases "i < start")
    case True
    then show ?thesis by (subst (1 2) parse_loop.simps) simp
  next
    case ge: False
    note st0 = "1.prems"(1)
    from ge have noslash: "path ! nat i \<noteq> CHR ''/''" using "1.prems" by simp
    define v1 where "v1 = (if endPos v = -1 then v\<lparr>endPos := i + 1, matchedSlash := False\<rparr> else v)"
    define v2 where "v2 = (if path ! nat i = CHR ''.'' then
                     (if startDot v1 = -1 then v1\<lparr>startDot := i\<rparr>
                      else if preDotState v1 \<noteq> 1 then v1\<lparr>preDotState := 1\<rparr>
                      else v1)
                   else if startDot v1 \<noteq> -1 then v1\<lparr>preDotState := -1\<rparr>
                   else v1)"
    have pre: "\<forall>k. start \<le> k \<and> k \<le> i - 1 \<longrightarrow> path ! nat k \<noteq> CHR ''/''"
      using "1.prems" by simp
    note ih = "1.IH"(2)[OF ge noslash v1_def v2_def st0 pre]
    have eq: "parse_loop path start i v = parse_loop path start (i - 1) v2"
      using ge noslash by (subst parse_loop.simps) (simp add: v1_def v2_def Let_def)
    have v2f: "startPart v2 = startPart v" "endPos v2 = (if endPos v = -1 then i + 1 else endPos v)"
      by (auto simp: v2_def v1_def)
    show ?thesis using ih ge st0 unfolding eq v2f by auto
  qed
qed

lemma path_parse_no_slash:
  assumes "CHR ''/'' \<notin> set f"
  shows "p_base (path_parse f) = f"
proof (cases "f = []")
  case True then show ?thesis by (simp add: path_parse_def)
next
  case False
  have ns: "\<forall>k. (0::int) \<le> k \<and> k \<le> int (length f) - 1 \<longrightarrow> f ! nat k \<noteq> CHR ''/''"
    using assms by (auto simp: in_set_conv_nth)
  have f0: "f ! 0 \<noteq> CHR ''/''" using assms False by (cases f) auto
  from parse_loop_no_slash[OF _ ns, of parse_init] False
  show ?thesis using f0
    by (auto simp: path_parse_def Let_def parse_init_def slice_def)
qed

lemma split_last_dot:
  assumes "f = a @ CHR ''.'' # b" "CHR ''.'' \<notin> set b"
  shows "stripped_filename f = a" "filename_extension f = b"
proof -
  have r: "rev f = rev b @ CHR ''.'' # rev a" using assms(1) by simp
  have all: "\<forall>c \<in> set (rev b). c \<noteq> CHR ''.''" using assms(2) by auto
  have t: "takeWhile (\<lambda>c. c \<noteq> CHR ''.'') (rev f) = rev b"
    unfolding r using all by (simp add: takeWhile_tail)
  have "dropWhile (\<lambda>c. c \<noteq> CHR ''.'') (rev b @ CHR ''.'' # rev a)
          = dropWhile (\<lambda>c. c \<noteq> CHR ''.'') (CHR ''.'' # rev a)"
    by (rule dropWhile_append2) (use all in blast)
  then have d: "dropWhile (\<lambda>c. c \<noteq> CHR ''.'') (rev f) = CHR ''.'' # rev a"
    unfolding r by simp
  have dotin: "CHR ''.'' \<in> set f" using assms(1) by simp
  show "stripped_filename f = a" unfolding stripped_filename_def d using dotin by simp
  show "filename_extension f = b" unfolding filename_extension_def t using dotin by simp
qed

lemma parse_loop_dots:
  "0 \<le> start \<Longrightarrow> \<forall>k. start \<le> k \<and> k \<le> i \<longrightarrow> path ! nat k \<noteq> CHR ''/'' \<Longrightarrow>
   (startDot v \<noteq> -1 \<longrightarrow> startDot (parse_loop path start i v) = startDot v) \<and>
   (startDot v = -1 \<longrightarrow>
      startDot (parse_loop path start i v) = -1 \<and>
        (\<forall>k. start \<le> k \<and> k \<le> i \<longrightarrow> path ! nat k \<noteq> CHR ''.'')
      \<or> start \<le> startDot (parse_loop path start i v) \<and>
        startDot (parse_loop path start i v) \<le> i \<and>
        path ! nat (startDot (parse_loop path start i v)) = CHR ''.'' \<and>
        (\<forall>k. startDot (parse_loop path start i v) < k \<and> k \<le> i \<longrightarrow> path ! nat k \<noteq> CHR ''.'')) \<and>
   (start \<le> i \<and> path ! nat start \<noteq> CHR ''.'' \<and> startDot (parse_loop path start i v) \<noteq> -1 \<longrightarrow>
      preDotState (parse_loop path start i v) = -1)"
proof (induction path start i v rule: parse_loop.induct)
  case (1 path start i v)
  show ?case
  proof (cases "i < start")
    case True
    then have "parse_loop path start i v = v" by (subst parse_loop.simps) simp
    then show ?thesis using True by auto
  next
    case ge: False
    note st0 = "1.prems"(1)
    from ge have noslash: "path ! nat i \<noteq> CHR ''/''" using "1.prems" by simp
    define v1 where "v1 = (if endPos v = -1 then v\<lparr>endPos := i + 1, matchedSlash := False\<rparr> else v)"
    define v2 where "v2 = (if path ! nat i = CHR ''.'' then
                     (if startDot v1 = -1 then v1\<lparr>startDot := i\<rparr>
                      else if preDotState v1 \<noteq> 1 then v1\<lparr>preDotState := 1\<rparr>
                      else v1)
                   else if startDot v1 \<noteq> -1 then v1\<lparr>preDotState := -1\<rparr>
                   else v1)"
    have pre: "\<forall>k. start \<le> k \<and> k \<le> i - 1 \<longrightarrow> path ! nat k \<noteq> CHR ''/''"
      using "1.prems" by simp
    note ih = "1.IH"(2)[OF ge noslash v1_def v2_def st0 pre]
    have eq: "parse_loop path start i v = parse_loop path start (i - 1) v2"
      using ge noslash by (subst parse_loop.simps) (simp add: v1_def v2_def Let_def)
    have sd: "startDot v2 = (if startDot v = -1 \<and> path ! nat i = CHR ''.'' then i else startDot v)"
      by (auto simp: v2_def v1_def)
    have last: "parse_loop path start (i - 1) v2 = v2" if "i = start"
      using that by (subst parse_loop.simps) simp
    have pd: "preDotState v2 = -1" if "path ! nat i \<noteq> CHR ''.''" "startDot v2 \<noteq> -1"
      using that by (auto simp: v2_def v1_def split: if_splits)
    have ki: "\<And>k. k \<le> i \<Longrightarrow> \<not> k \<le> i - 1 \<Longrightarrow> k = i" by simp
    show ?thesis
    proof (intro conjI impI)
      assume "startDot v \<noteq> -1"
      then show "startDot (parse_loop path start i v) = startDot v"
        using ih sd unfolding eq by simp
    next
      assume none: "startDot v = -1"
      show "startDot (parse_loop path start i v) = -1 \<and>
        (\<forall>k. start \<le> k \<and> k \<le> i \<longrightarrow> path ! nat k \<noteq> CHR ''.'')
      \<or> start \<le> startDot (parse_loop path start i v) \<and>
        startDot (parse_loop path start i v) \<le> i \<and>
        path ! nat (startDot (parse_loop path start i v)) = CHR ''.'' \<and>
        (\<forall>k. startDot (parse_loop path start i v) < k \<and> k \<le> i \<longrightarrow> path ! nat k \<noteq> CHR ''.'')"
      proof (cases "path ! nat i = CHR ''.''")
        case True
        then have "startDot v2 = i" "i \<noteq> -1" using sd none ge st0 by auto
        then have "startDot (parse_loop path start (i - 1) v2) = i" using ih by simp
        then show ?thesis unfolding eq using True ge by auto
      next
        case False
        then have "startDot v2 = -1" using sd none by simp
        with ih have "startDot (parse_loop path start (i - 1) v2) = -1 \<and>
            (\<forall>k. start \<le> k \<and> k \<le> i - 1 \<longrightarrow> path ! nat k \<noteq> CHR ''.'')
          \<or> start \<le> startDot (parse_loop path start (i - 1) v2) \<and>
            startDot (parse_loop path start (i - 1) v2) \<le> i - 1 \<and>
            path ! nat (startDot (parse_loop path start (i - 1) v2)) = CHR ''.'' \<and>
            (\<forall>k. startDot (parse_loop path start (i - 1) v2) < k \<and> k \<le> i - 1
                 \<longrightarrow> path ! nat k \<noteq> CHR ''.'')"
          by blast
        then show ?thesis unfolding eq using False by (auto dest: ki)
      qed
    next
      assume h: "start \<le> i \<and> path ! nat start \<noteq> CHR ''.'' \<and>
                 startDot (parse_loop path start i v) \<noteq> -1"
      show "preDotState (parse_loop path start i v) = -1"
      proof (cases "i = start")
        case True
        with h last pd show ?thesis unfolding eq by simp
      next
        case False
        with ge have "start \<le> i - 1" by simp
        with h ih show ?thesis unfolding eq by simp
      qed
    qed
  qed
qed

lemma path_parse_plain:
  assumes ns: "CHR ''/'' \<notin> set f" and nd: "take 1 f \<noteq> ''.''"
  shows "p_name (path_parse f) = stripped_filename f"
    and "drop 1 (p_ext (path_parse f)) = filename_extension f"
proof -
  have both: "p_name (path_parse f) = stripped_filename f \<and>
              drop 1 (p_ext (path_parse f)) = filename_extension f"
  proof (cases "f = []")
    case True
    then show ?thesis by (simp add: path_parse_def stripped_filename_def filename_extension_def)
  next
    case False
    define v where "v = parse_loop f 0 (int (length f) - 1) parse_init"
    have f0s: "f ! 0 \<noteq> CHR ''/''" using ns False by (cases f) auto
    have f0d: "f ! 0 \<noteq> CHR ''.''" using nd False by (cases f) auto
    have nsl: "\<forall>k. (0::int) \<le> k \<and> k \<le> int (length f) - 1 \<longrightarrow> f ! nat k \<noteq> CHR ''/''"
      using ns by (auto simp: in_set_conv_nth)
    from parse_loop_no_slash[OF _ nsl, of parse_init] False
    have se: "startPart v = 0" "endPos v = int (length f)"
      by (auto simp: v_def parse_init_def)
    note dots = parse_loop_dots[OF _ nsl, of parse_init, folded v_def]
    have pp: "p_name (path_parse f) =
                (if startDot v = -1 \<or> preDotState v = 0 \<or>
                    (preDotState v = 1 \<and> startDot v = endPos v - 1 \<and> startDot v = startPart v + 1)
                 then slice f 0 (endPos v) else slice f 0 (startDot v))"
      "p_ext (path_parse f) =
                (if startDot v = -1 \<or> preDotState v = 0 \<or>
                    (preDotState v = 1 \<and> startDot v = endPos v - 1 \<and> startDot v = startPart v + 1)
                 then [] else slice f (startDot v) (endPos v))"
      using False f0s se by (simp_all add: path_parse_def Let_def v_def)
    show ?thesis
    proof (cases "startDot v = -1")
      case True
      with dots have nodot: "\<forall>k. (0::int) \<le> k \<and> k \<le> int (length f) - 1 \<longrightarrow> f ! nat k \<noteq> CHR ''.''"
        by (auto simp: parse_init_def)
      have "CHR ''.'' \<notin> set f"
      proof
        assume "CHR ''.'' \<in> set f"
        then obtain j where j: "j < length f" "f ! j = CHR ''.''"
          by (auto simp: in_set_conv_nth)
        have "(0::int) \<le> int j \<and> int j \<le> int (length f) - 1" using j(1) by simp
        with nodot have "f ! nat (int j) \<noteq> CHR ''.''" by blast
        then have "f ! j \<noteq> CHR ''.''" by simp
        with j(2) show False by simp
      qed
      with True show ?thesis
        by (simp add: pp se slice_def stripped_filename_def filename_extension_def)
    next
      case dot: False
      with dots have d: "0 \<le> startDot v" "startDot v \<le> int (length f) - 1"
        "f ! nat (startDot v) = CHR ''.''"
        "\<forall>k. startDot v < k \<and> k \<le> int (length f) - 1 \<longrightarrow> f ! nat k \<noteq> CHR ''.''"
        by (auto simp: parse_init_def)
      have pds: "preDotState v = -1"
        using dots dot f0d False by (auto simp: parse_init_def)
      define n where "n = nat (startDot v)"
      have n: "n < length f" "f ! n = CHR ''.''" using d by (auto simp: n_def)
      have after: "CHR ''.'' \<notin> set (drop (Suc n) f)"
      proof
        assume "CHR ''.'' \<in> set (drop (Suc n) f)"
        then obtain j where j: "j < length f - Suc n" "f ! (Suc n + j) = CHR ''.''"
          by (auto simp: in_set_conv_nth)
        have "startDot v < int (Suc n + j) \<and> int (Suc n + j) \<le> int (length f) - 1"
          using j(1) d(1) by (auto simp: n_def)
        with d(4) have "f ! nat (int (Suc n + j)) \<noteq> CHR ''.''" by blast
        then have "f ! (Suc n + j) \<noteq> CHR ''.''" unfolding nat_int .
        with j(2) show False by simp
      qed
      have split: "f = take n f @ CHR ''.'' # drop (Suc n) f"
        using n by (metis id_take_nth_drop)
      have nm: "p_name (path_parse f) = take n f"
        using dot pds by (simp add: pp slice_def n_def)
      have ex: "p_ext (path_parse f) = drop n f"
        using dot pds d by (simp add: pp se slice_def n_def)
      show ?thesis
        using split_last_dot[OF split after] nm ex by simp
    qed
  qed
  then show "p_name (path_parse f) = stripped_filename f"
    and "drop 1 (p_ext (path_parse f)) = filename_extension f"
    by simp_all
qed

lemma replace_first_dot_ext:
  "replace_first_dot (p_ext (path_parse f)) = drop 1 (p_ext (path_parse f))"
  using path_parse_ext_dot[of f] by auto

section \<open>The derived key\<close>

lemma processed_filename_segments:
  "generateProcessedFilename r =
     p_name (path_parse (filename r)) @ key_dimensions r @ ''.'' @ key_extension r"
  by (simp add: generateProcessedFilename_def key_dimensions_def key_extension_def Let_def)

lemma cache_key_segments:
  "generateCacheKey r =
     p_name (path_parse (filename r)) @ key_dimensions r @ ''.'' @ key_extension r"
  by (simp add: generateCacheKey_def key_dimensions_def key_extension_def Let_def)

lemma truthy_num_valid: "positive_or_absent d \<Longrightarrow> truthy_num d = (d \<noteq> None)"
  by (cases d rule: positive_or_absent.cases) auto

lemma key_dimensions_valid:
  "positive_or_absent (width r) \<Longrightarrow> positive_or_absent (height r) \<Longrightarrow>
   key_dimensions r = spec_dims r"
  by (auto simp: key_dimensions_def spec_dims_def truthy_num_valid split: option.splits)

lemma key_extension_valid: "format r \<noteq> Some [] \<Longrightarrow> key_extension r = parsed_ext r"
  by (cases "format r") (auto simp: key_extension_def parsed_ext_def replace_first_dot_ext)

lemma path_parse_sample:
  "p_name (path_parse ''sample.jpg'') = ''sample''" "p_ext (path_parse ''sample.jpg'') = ''.jpg''"
  by code_simp+

lemma path_parse_nested:
  "p_name (path_parse ''a/b.jpg'') = ''b''" "p_ext (path_parse ''a/b.jpg'') = ''.jpg''"
  by code_simp+

lemma digits_examples: "int_to_string 300 = ''300''" "int_to_string 200 = ''200''"
  by code_simp+

lemma claimed_key_plain:
  assumes "valid_request r" "CHR ''/'' \<notin> set (filename r)" "take 1 (filename r) \<noteq> ''.''"
  shows "parsed_key r = claimed_key r"
proof -
  note n = path_parse_plain(1)[OF assms(2,3)] and e = path_parse_plain(2)[OF assms(2,3)]
  show ?thesis
    unfolding parsed_key_def parsed_ext_def claimed_key_def n e by (rule refl)
qed

lemma claimed_examples:
  "claimed_key sample_resized = ''sample_300x200.jpg''"
  "claimed_key sample_png = ''sample.png''"
  "CHR ''/'' \<notin> set (filename sample_resized)" "take 1 (filename sample_resized) \<noteq> ''.''"
  "CHR ''/'' \<notin> set (filename sample_png)" "take 1 (filename sample_png) \<noteq> ''.''"
  by code_simp+

text \<open>
  C1, as amended. For a request whose width and height, when present, are positive
  integers and whose format, when present, is not empty, the output filename and the
  cache key are the base, the dimension suffix, a dot and the extension, where the base
  and the file's extension are those \<open>path.parse\<close> gives. When the filename moreover
  holds no directory separator and does not begin with a dot, the base is the filename
  without its extension and the key is the one the claim words. The two examples of the
  specification are the last two conjuncts.
\<close>

theorem derived_key_formula:
  "(valid_request r \<longrightarrow>
      generateProcessedFilename r = parsed_key r \<and> generateCacheKey r = parsed_key r) \<and>
   (valid_request r \<and> CHR ''/'' \<notin> set (filename r) \<and> take 1 (filename r) \<noteq> ''.'' \<longrightarrow>
      generateProcessedFilename r = claimed_key r \<and> generateCacheKey r = claimed_key r) \<and>
   generateProcessedFilename
     \<lparr>filename = ''sample.jpg'', width = Some (Fin 300), height = Some (Fin 200), format = None\<rparr>
     = ''sample_300x200.jpg'' \<and>
   generateProcessedFilename
     \<lparr>filename = ''sample.jpg'', width = None, height = None, format = Some ''png''\<rparr>
     = ''sample.png''"
proof -
  have parsed: "generateProcessedFilename r = parsed_key r \<and> generateCacheKey r = parsed_key r"
    if v: "valid_request r"
  proof -
    from v have d: "key_dimensions r = spec_dims r" and e: "key_extension r = parsed_ext r"
      by (simp_all add: valid_request_def key_dimensions_valid key_extension_valid)
    show ?thesis
      by (simp add: processed_filename_segments cache_key_segments parsed_key_def d e)
  qed
  have claimed: "generateProcessedFilename r = claimed_key r \<and> generateCacheKey r = claimed_key r"
    if h: "valid_request r \<and> CHR ''/'' \<notin> set (filename r) \<and> take 1 (filename r) \<noteq> ''.''"
    using parsed h claimed_key_plain[of r] by simp
  have ex1: "generateProcessedFilename
     \<lparr>filename = ''sample.jpg'', width = Some (Fin 300), height = Some (Fin 200), format = None\<rparr>
     = ''sample_300x200.jpg''"
    by (simp add: processed_filename_segments key_dimensions_def key_extension_def
        path_parse_sample digits_examples)
  have ex2: "generateProcessedFilename
     \<lparr>filename = ''sample.jpg'', width = None, height = None, format = Some ''png''\<rparr>
     = ''sample.png''"
    by (simp add: processed_filename_segments key_dimensions_def key_extension_def
        path_parse_sample)
  show ?thesis using parsed claimed ex1 ex2 by blast
qed

theorem derived_key_formula_witness:
  "valid_request sample_resized \<and>
   CHR ''/'' \<notin> set (filename sample_resized) \<and> take 1 (filename sample_resized) \<noteq> ''.'' \<and>
   generateProcessedFilename sample_resized = ''sample_300x200.jpg'' \<and>
   generateCacheKey sample_resized = ''sample_300x200.jpg'' \<and>
   parsed_key sample_resized = ''sample_300x200.jpg'' \<and>
   valid_request sample_png \<and>
   CHR ''/'' \<notin> set (filename sample_png) \<and> take 1 (filename sample_png) \<noteq> ''.'' \<and>
   generateCacheKey sample_png = ''sample.png''"
proof -
  have v1: "valid_request sample_resized" and v2: "valid_request sample_png"
    by (simp_all add: valid_request_def sample_resized_def sample_png_def)
  from derived_key_formula[of sample_resized] v1 claimed_examples(3,4)
  have "generateProcessedFilename sample_resized = claimed_key sample_resized"
    "generateCacheKey sample_resized = claimed_key sample_resized"
    by blast+
  then have a: "generateProcessedFilename sample_resized = ''sample_300x200.jpg''"
    "generateCacheKey sample_resized = ''sample_300x200.jpg''"
    by (simp_all add: claimed_examples(1))
  from derived_key_formula[of sample_resized] v1
  have "generateProcessedFilename sample_resized = parsed_key sample_resized" by blast
  with a(1) have p: "parsed_key sample_resized = ''sample_300x200.jpg''" by simp
  from derived_key_formula[of sample_png] v2 claimed_examples(5,6)
  have "generateCacheKey sample_png = claimed_key sample_png" by blast
  then have b: "generateCacheKey sample_png = ''sample.png''"
    by (simp add: claimed_examples(2))
  show ?thesis using v1 v2 a b p claimed_examples(3,4,5,6) by simp
qed

text \<open>
  The formula as first claimed fails for a filename with a directory: the filename
  without its extension is \<open>photos/sample\<close>, the base of the key is \<open>sample\<close>. It
  also fails for a filename that begins with its only dot, which \<open>path.parse\<close> takes to
  have no extension.
\<close>

theorem claimed_key_fails:
  "valid_request nested_resized \<and>
   claimed_key nested_resized = ''photos/sample_300x200.jpg'' \<and>
   generateProcessedFilename nested_resized = ''sample_300x200.jpg'' \<and>
   generateCacheKey nested_resized = ''sample_300x200.jpg'' \<and>
   generateProcessedFilename nested_resized \<noteq> claimed_key nested_resized \<and>
   valid_request hidden_name \<and>
   claimed_key hidden_name = ''.hidden'' \<and>
   generateProcessedFilename hidden_name = ''.hidden.jpg'' \<and>
   generateProcessedFilename hidden_name \<noteq> claimed_key hidden_name"
  by code_simp

text \<open>
  C2. The key function of the cache layer and the filename function of the transformer
  return the same string for every options object, whatever its fields.
\<close>

theorem cache_key_is_processed_filename:
  "generateCacheKey options = generateProcessedFilename options"
  by (simp add: generateCacheKey_def generateProcessedFilename_def)

text \<open>
  C7, as amended. Key derivation is total, and the base segment of the key is the
  \<open>name\<close> that \<open>path.parse\<close> gives: the last component of the filename without its
  extension. It never holds a directory separator; base and extension together are a
  run of characters copied from the filename unchanged; and for a filename without a
  separator they are the whole filename.
\<close>

theorem key_base_segment:
  "generateProcessedFilename r =
     p_name (path_parse (filename r)) @ key_dimensions r @ ''.'' @ key_extension r \<and>
   generateCacheKey r =
     p_name (path_parse (filename r)) @ key_dimensions r @ ''.'' @ key_extension r \<and>
   CHR ''/'' \<notin> set (p_name (path_parse (filename r))) \<and>
   (\<exists>pre suf. filename r =
      pre @ p_name (path_parse (filename r)) @ p_ext (path_parse (filename r)) @ suf) \<and>
   (CHR ''/'' \<notin> set (filename r) \<longrightarrow>
      filename r = p_name (path_parse (filename r)) @ p_ext (path_parse (filename r)))"
proof (intro conjI impI)
  show "generateProcessedFilename r =
     p_name (path_parse (filename r)) @ key_dimensions r @ ''.'' @ key_extension r"
    by (rule processed_filename_segments)
  show "generateCacheKey r =
     p_name (path_parse (filename r)) @ key_dimensions r @ ''.'' @ key_extension r"
    by (rule cache_key_segments)
  show "CHR ''/'' \<notin> set (p_name (path_parse (filename r)))"
    by (rule path_parse_name_no_slash)
  show "\<exists>pre suf. filename r =
      pre @ p_name (path_parse (filename r)) @ p_ext (path_parse (filename r)) @ suf"
    using path_parse_base_sub[of "filename r"] path_parse_base[of "filename r"]
    by (metis append.assoc)
next
  assume "CHR ''/'' \<notin> set (filename r)"
  then show "filename r = p_name (path_parse (filename r)) @ p_ext (path_parse (filename r))"
    by (simp add: path_parse_base path_parse_no_slash)
qed

theorem key_base_segment_witness:
  "CHR ''/'' \<notin> set (filename sample_resized) \<and>
   filename sample_resized = ''sample'' @ ''.jpg'' \<and>
   p_name (path_parse (filename sample_resized)) = ''sample'' \<and>
   CHR ''/'' \<notin> set (p_name (path_parse (filename nested_name)))"
proof -
  have h: "CHR ''/'' \<notin> set (filename sample_resized)"
    by (simp add: sample_resized_def)
  have f: "filename sample_resized = ''sample.jpg''" by (simp add: sample_resized_def)
  from key_base_segment[of sample_resized] h
  have "filename sample_resized =
          p_name (path_parse (filename sample_resized)) @ p_ext (path_parse (filename sample_resized))"
    by blast
  moreover from key_base_segment[of nested_name]
  have "CHR ''/'' \<notin> set (p_name (path_parse (filename nested_name)))" by blast
  ultimately show ?thesis using h f by (simp add: path_parse_sample)
qed

text \<open>
  The claim as first stated fails for a filename with a directory separator: the base of
  \<open>a/b.jpg\<close> is \<open>b\<close>, so base and extension are not the filename, and the key is
  \<open>b.jpg\<close>.
\<close>

theorem key_base_not_verbatim:
  "p_name (path_parse (filename nested_name)) @ p_ext (path_parse (filename nested_name))
     \<noteq> filename nested_name \<and>
   p_name (path_parse (filename nested_name)) = ''b'' \<and>
   generateProcessedFilename nested_name = ''b.jpg'' \<and>
   generateCacheKey nested_name = ''b.jpg''"
  by (simp add: nested_name_def processed_filename_segments cache_key_segments
      key_dimensions_def key_extension_def path_parse_nested)

section \<open>The output directory of the two modules\<close>

lemma split_slash_nonempty: "split_slash s \<noteq> []"
  by (induction s) (auto split: list.splits)

lemma split_slash_append:
  "split_slash (a @ CHR ''/'' # b) = split_slash a @ split_slash b"
  by (induction a) (auto split: list.splits simp: split_slash_nonempty)

lemma norm_push_pop:
  "seg \<noteq> [] \<Longrightarrow> seg \<noteq> ''.'' \<Longrightarrow> seg \<noteq> ''..'' \<Longrightarrow>
   norm_step ab (norm_step ab res seg) ''..'' = res"
  by (simp add: norm_step_def)

lemma normalize_processed_sibling:
  "normalizeString (x @ ''/utils/../../public/images/processed/'') ab =
   normalizeString (x @ ''/middleware/../../public/images/processed/'') ab"
proof -
  have u: "x @ ''/utils/../../public/images/processed/'' =
           x @ CHR ''/'' # (''utils'' @ CHR ''/'' # ''../../public/images/processed/'')"
    by simp
  have m: "x @ ''/middleware/../../public/images/processed/'' =
           x @ CHR ''/'' # (''middleware'' @ CHR ''/'' # ''../../public/images/processed/'')"
    by simp
  have su: "split_slash ''utils'' = [''utils'']" and sm: "split_slash ''middleware'' = [''middleware'']"
    by simp_all
  have pu: "norm_step ab (norm_step ab res ''utils'') ''..'' = res" for res
    by (rule norm_push_pop) simp_all
  have pm: "norm_step ab (norm_step ab res ''middleware'') ''..'' = res" for res
    by (rule norm_push_pop) simp_all
  obtain seg segs where rest: "split_slash ''../../public/images/processed/'' = ''..'' # segs"
    by simp
  show ?thesis
    unfolding normalizeString_def u m split_slash_append su sm rest
    by (simp add: pu pm)
qed

lemma resolve_processed_sibling:
  "path_resolve c [d @ ''/utils'', ''../../public/images/processed''] =
   path_resolve c [d @ ''/middleware'', ''../../public/images/processed'']"
proof -
  have "\<exists>x ab. resolve_parts [''../../public/images/processed'', d @ ''/utils'', c] [] =
            (x @ ''/utils/../../public/images/processed/'', ab) \<and>
          resolve_parts [''../../public/images/processed'', d @ ''/middleware'', c] [] =
            (x @ ''/middleware/../../public/images/processed/'', ab)"
    by (cases d) auto
  then obtain x ab where
    "resolve_parts [''../../public/images/processed'', d @ ''/utils'', c] [] =
            (x @ ''/utils/../../public/images/processed/'', ab)"
    "resolve_parts [''../../public/images/processed'', d @ ''/middleware'', c] [] =
            (x @ ''/middleware/../../public/images/processed/'', ab)"
    by blast
  then show ?thesis
    by (simp add: path_resolve_def normalize_processed_sibling)
qed

lemma output_folders_agree: "cache_outputFolder s = outputFolder s"
  by (simp add: cache_outputFolder_def outputFolder_def dirname_utils_def dirname_middleware_def
      resolve_processed_sibling)

section \<open>Runs of the transformer and of a request\<close>

lemma record_call_simps [simp]:
  "disk (record_call e w) = disk w"
  "mkdir_error (record_call e w) = mkdir_error w"
  "sharp (record_call e w) = sharp w"
  "calls (record_call e w) = calls w @ [e]"
  by (simp_all add: record_call_def)

lemma write_node_simps [simp]:
  "disk (write_node p n w) = (disk w)(p := n)"
  "mkdir_error (write_node p n w) = mkdir_error w"
  "sharp (write_node p n w) = sharp w"
  "calls (write_node p n w) = calls w"
  by (simp_all add: write_node_def)

lemma existsSync_record_call [simp]: "existsSync (record_call e w) p = existsSync w p"
  by (simp add: existsSync_def)

lemma existsSync_write_intact [simp]:
  "existsSync (write_node p Intact w) p' = (p' = p \<or> existsSync w p')"
  by (simp add: existsSync_def)

lemma existsSync_write_truncated [simp]:
  "existsSync (write_node p Truncated w) p' = (p' = p \<or> existsSync w p')"
  by (simp add: existsSync_def)

lemma checkCache_record_call [simp]: "checkCache s (record_call e w) r = checkCache s w r"
  by (simp add: checkCache_def)

lemma imageExists_record_call [simp]: "imageExists s (record_call e w) f = imageExists s w f"
  by (simp add: imageExists_def)

lemma new_calls_append [simp]: "calls w' = calls w @ es \<Longrightarrow> new_calls w w' = es"
  by (simp add: new_calls_def)

lemma new_calls_self [simp]: "new_calls w (record_call e w) = [e]"
  by (simp add: new_calls_def)

lemma checkCache_target:
  "checkCache s w r = (if existsSync w (target_path s r) then Some (target_path s r) else None)"
  by (simp add: checkCache_def target_path_def output_folders_agree
      cache_key_segments processed_filename_segments)

lemma ensure_ready:
  "folder_ready s w \<Longrightarrow>
   ensureOutputFolderExists s (record_call (ProcessImage r) w) = (Inr (), after_folder s w r)"
  by (auto simp: ensureOutputFolderExists_def folder_ready_def after_folder_def)

lemma mkdir_recursive_simps [simp]:
  "disk (mkdir_recursive p w) q =
     (if q \<in> set (mkdir_chain p) \<and> \<not> existsSync w q then Intact else disk w q)"
  "mkdir_error (mkdir_recursive p w) = mkdir_error w"
  "sharp (mkdir_recursive p w) = sharp w"
  "calls (mkdir_recursive p w) = calls w"
  by (simp_all add: mkdir_recursive_def)

lemma existsSync_mkdir_recursive [simp]:
  "existsSync (mkdir_recursive p w) q = (existsSync w q \<or> q \<in> set (mkdir_chain p))"
  by (auto simp: existsSync_def)

lemma ensure_fails:
  "\<not> folder_ready s w \<Longrightarrow>
   ensureOutputFolderExists s (record_call (ProcessImage r) w) =
     (Inl (''Failed to create output directory: '' @ the (mkdir_error w)),
      record_call (ProcessImage r) w)"
  by (auto simp: ensureOutputFolderExists_def folder_ready_def)

lemma after_folder_simps [simp]:
  "mkdir_error (after_folder s w r) = mkdir_error w"
  "sharp (after_folder s w r) = sharp w"
  "calls (after_folder s w r) = calls w @ [ProcessImage r]"
  by (simp_all add: after_folder_def ensureOutputFolderExists_def split: option.splits)

lemma existsSync_after_folder:
  "existsSync (after_folder s w r) p =
     (existsSync w p \<or>
      \<not> existsSync w (outputFolder s) \<and> mkdir_error w = None \<and>
      p \<in> set (mkdir_chain (outputFolder s)))"
  by (auto simp: after_folder_def ensureOutputFolderExists_def split: option.splits)

lemma after_folder_present:
  "existsSync w (outputFolder s) \<Longrightarrow> after_folder s w r = record_call (ProcessImage r) w"
  by (simp add: after_folder_def ensureOutputFolderExists_def)

lemma disk_after_folder:
  "p \<notin> set (mkdir_chain (outputFolder s)) \<Longrightarrow> disk (after_folder s w r) p = disk w p"
  by (simp add: after_folder_def ensureOutputFolderExists_def split: option.splits)

lemma after_codec_simps [simp]:
  "calls (after_codec s w r) = calls w @ [ProcessImage r, SharpRun (codec_call s r)]"
  "disk (after_codec s w r) = disk (after_folder s w r)"
  by (simp_all add: after_codec_def)

lemma codec_call_simps [simp]:
  "sc_input (codec_call s r) = input_path s r"
  "sc_output (codec_call s r) = target_path s r"
  by (simp_all add: codec_call_def)

text \<open>The three ways a run of the transformer can go.\<close>

lemma processImage_mkdir_fails:
  "\<not> folder_ready s w \<Longrightarrow>
   processImage s w r =
     (Inl (''Failed to process image: Error: Failed to create output directory: ''
           @ the (mkdir_error w)),
      record_call (ProcessImage r) w)"
  by (simp add: processImage_def ensure_fails error_to_string_def)

lemma processImage_not_found:
  "folder_ready s w \<Longrightarrow> \<not> existsSync (after_folder s w r) (input_path s r) \<Longrightarrow>
   processImage s w r =
     (Inl (''Failed to process image: Error: Input file not found: '' @ input_path s r),
      after_folder s w r)"
  by (simp add: processImage_def ensure_ready error_to_string_def input_path_def)

lemma processImage_codec:
  "folder_ready s w \<Longrightarrow> existsSync (after_folder s w r) (input_path s r) \<Longrightarrow>
   processImage s w r =
     (case sharp w (codec_call s r) of
        Written \<Rightarrow> (Inr (target_path s r), write_node (target_path s r) Intact (after_codec s w r))
      | Failed e \<Rightarrow> (Inl (''Failed to process image: '' @ e), after_codec s w r)
      | FailedPartial e \<Rightarrow>
          (Inl (''Failed to process image: '' @ e),
           write_node (target_path s r) Truncated (after_codec s w r)))"
  by (simp add: processImage_def ensure_ready run_sharp_def after_codec_def codec_call_def
      input_path_def target_path_def Let_def split: sharp_outcome.split split del: if_split)

lemma processImage_calls:
  "calls (snd (processImage s w r)) = calls w @ [ProcessImage r] \<or>
   calls (snd (processImage s w r)) = calls w @ [ProcessImage r, SharpRun (codec_call s r)] \<and>
     folder_ready s w \<and> existsSync (after_folder s w r) (input_path s r)"
proof (cases "folder_ready s w")
  case False
  then show ?thesis by (simp add: processImage_mkdir_fails)
next
  case ready: True
  show ?thesis
  proof (cases "existsSync (after_folder s w r) (input_path s r)")
    case False
    with ready show ?thesis by (simp add: processImage_not_found)
  next
    case True
    with ready show ?thesis
      by (cases "sharp w (codec_call s r)") (simp_all add: processImage_codec)
  qed
qed

lemma processImage_success:
  assumes "processImage s w r = (Inr p, w')"
  shows "p = target_path s r \<and> disk w' p = Intact \<and> checkCache s w' r = Some p"
proof (cases "folder_ready s w")
  case False
  with assms show ?thesis by (simp add: processImage_mkdir_fails)
next
  case ready: True
  show ?thesis
  proof (cases "existsSync (after_folder s w r) (input_path s r)")
    case False
    with ready assms show ?thesis by (simp add: processImage_not_found)
  next
    case True
    with ready assms show ?thesis
      by (cases "sharp w (codec_call s r)")
         (auto simp: processImage_codec checkCache_target)
  qed
qed

text \<open>The middleware and the route as one decision list, and its branches.\<close>

lemma handleRequest_cases:
  "handleRequest s w q =
     (let opts = query_options q; w0 = record_call (CheckCache opts) w
      in if filename opts = [] then (Send 400 ''Missing required parameter: filename'', w)
         else (case checkCache s w opts of
                 Some p \<Rightarrow> (SendFile p, w0)
               | None \<Rightarrow>
                   if \<not> imageExists s w (filename opts) then
                     (Send 404 (''Image '' @ [CHR 0x27] @ filename opts @ [CHR 0x27] @ '' not found''), w0)
                   else if invalid_dimension (width opts) \<or> invalid_dimension (height opts) then
                     (Send 400 ''Width and height must be positive numbers'', w0)
                   else (case processImage s w0 opts of
                           (Inr path, w') \<Rightarrow> (SendFile path, w')
                         | (Inl msg, w') \<Rightarrow>
                             (Send 500 (''Internal server error: Error: '' @ msg), w'))))"
  by (auto simp: handleRequest_def cacheMiddleware_def routeHandler_def Let_def error_to_string_def
      split: option.splits prod.splits sum.splits)

lemma handle_missing:
  "filename (query_options q) = [] \<Longrightarrow>
   handleRequest s w q = (Send 400 ''Missing required parameter: filename'', w)"
  by (simp add: handleRequest_cases Let_def)

lemma handle_hit:
  "filename (query_options q) \<noteq> [] \<Longrightarrow> checkCache s w (query_options q) = Some p \<Longrightarrow>
   handleRequest s w q = (SendFile p, record_call (CheckCache (query_options q)) w)"
  by (simp add: handleRequest_cases Let_def)

lemma handle_no_source:
  "filename (query_options q) \<noteq> [] \<Longrightarrow> checkCache s w (query_options q) = None \<Longrightarrow>
   \<not> imageExists s w (filename (query_options q)) \<Longrightarrow>
   handleRequest s w q =
     (Send 404 (''Image '' @ [CHR 0x27] @ filename (query_options q) @ [CHR 0x27] @ '' not found''),
      record_call (CheckCache (query_options q)) w)"
  by (simp add: handleRequest_cases Let_def)

lemma handle_invalid:
  "filename (query_options q) \<noteq> [] \<Longrightarrow> checkCache s w (query_options q) = None \<Longrightarrow>
   imageExists s w (filename (query_options q)) \<Longrightarrow>
   invalid_dimension (width (query_options q)) \<or> invalid_dimension (height (query_options q)) \<Longrightarrow>
   handleRequest s w q =
     (Send 400 ''Width and height must be positive numbers'',
      record_call (CheckCache (query_options q)) w)"
  by (simp add: handleRequest_cases Let_def)

lemma handle_transform:
  "filename (query_options q) \<noteq> [] \<Longrightarrow> checkCache s w (query_options q) = None \<Longrightarrow>
   imageExists s w (filename (query_options q)) \<Longrightarrow>
   \<not> invalid_dimension (width (query_options q)) \<Longrightarrow>
   \<not> invalid_dimension (height (query_options q)) \<Longrightarrow>
   handleRequest s w q =
     (case processImage s (record_call (CheckCache (query_options q)) w) (query_options q) of
        (Inr path, w') \<Rightarrow> (SendFile path, w')
      | (Inl msg, w') \<Rightarrow> (Send 500 (''Internal server error: Error: '' @ msg), w'))"
  by (simp add: handleRequest_cases Let_def)

lemma handle_transform_response:
  assumes "filename (query_options q) \<noteq> []" "checkCache s w (query_options q) = None"
    "imageExists s w (filename (query_options q))"
    "\<not> invalid_dimension (width (query_options q))"
    "\<not> invalid_dimension (height (query_options q))"
  shows "fst (handleRequest s w q) =
     (case fst (processImage s (record_call (CheckCache (query_options q)) w) (query_options q)) of
        Inr path \<Rightarrow> SendFile path
      | Inl msg \<Rightarrow> Send 500 (''Internal server error: Error: '' @ msg))"
    and "snd (handleRequest s w q) =
           snd (processImage s (record_call (CheckCache (query_options q)) w) (query_options q))"
  unfolding handle_transform[OF assms]
  by (simp_all split: prod.splits sum.splits)

lemma handle_transform_calls:
  assumes "filename (query_options q) \<noteq> []" "checkCache s w (query_options q) = None"
    "imageExists s w (filename (query_options q))"
    "\<not> invalid_dimension (width (query_options q))"
    "\<not> invalid_dimension (height (query_options q))"
  shows "ProcessImage (query_options q) \<in> set (new_calls w (snd (handleRequest s w q)))"
proof -
  obtain extra where
    "calls (snd (processImage s (record_call (CheckCache (query_options q)) w) (query_options q)))
       = calls w @ CheckCache (query_options q) # ProcessImage (query_options q) # extra"
    using processImage_calls[of s "record_call (CheckCache (query_options q)) w" "query_options q"]
    by auto
  then show ?thesis
    unfolding handle_transform_response(2)[OF assms] by simp
qed

lemma served_on_miss:
  assumes "fst (handleRequest s w q) = SendFile p" "checkCache s w (query_options q) = None"
  shows "filename (query_options q) \<noteq> [] \<and> imageExists s w (filename (query_options q)) \<and>
         \<not> invalid_dimension (width (query_options q)) \<and>
         \<not> invalid_dimension (height (query_options q))"
proof -
  have f: "filename (query_options q) \<noteq> []"
  proof
    assume "filename (query_options q) = []"
    from handle_missing[OF this, of s w] assms(1) show False by simp
  qed
  have e: "imageExists s w (filename (query_options q))"
  proof (rule ccontr)
    assume "\<not> imageExists s w (filename (query_options q))"
    from handle_no_source[OF f assms(2) this] assms(1) show False by simp
  qed
  have "\<not> (invalid_dimension (width (query_options q)) \<or> invalid_dimension (height (query_options q)))"
  proof
    assume "invalid_dimension (width (query_options q)) \<or> invalid_dimension (height (query_options q))"
    from handle_invalid[OF f assms(2) e this] assms(1) show False by simp
  qed
  with f e show ?thesis by simp
qed

text \<open>The concrete requests, evaluated.\<close>

lemma ex_filename: "filename (query_options q_sample_300) \<noteq> []"
  by code_simp

lemma ex_hit: "checkCache example_site world_cached_resized (query_options q_sample_300)
                 = Some resized_artifact"
  by code_simp

lemma ex_miss: "checkCache example_site world_fresh (query_options q_sample_300) = None"
  by code_simp

lemma ex_served: "fst (handleRequest example_site world_fresh q_sample_300) = SendFile resized_artifact"
  by code_simp

lemma ex_transform: "fst (processImage example_site world_fresh (query_options q_sample_300))
                       = Inr resized_artifact"
  by code_simp

lemma ex_none: "filename (query_options q_none) = []"
  by code_simp

lemma ex_ghost:
  "filename (query_options q_ghost_300) \<noteq> []"
  "\<not> invalid_dimension (width (query_options q_ghost_300))"
  "\<not> invalid_dimension (height (query_options q_ghost_300))"
  "checkCache example_site world_orphan_cache (query_options q_ghost_300) = Some ghost_artifact"
  "\<not> imageExists example_site world_orphan_cache (filename (query_options q_ghost_300))"
  by code_simp+

lemma ex_ghost_bad:
  "filename (query_options q_ghost_bad) \<noteq> []"
  "filename (query_options q_ghost_bad) = ''ghost.jpg''"
  "invalid_dimension (width (query_options q_ghost_bad))"
  "checkCache example_site world_no_source (query_options q_ghost_bad) = None"
  "\<not> imageExists example_site world_no_source (filename (query_options q_ghost_bad))"
  by code_simp+

lemma ex_sample_bad:
  "filename (query_options q_sample_bad) \<noteq> []"
  "invalid_dimension (width (query_options q_sample_bad))"
  "checkCache example_site world_fresh (query_options q_sample_bad) = None"
  "imageExists example_site world_fresh (filename (query_options q_sample_bad))"
  by code_simp+

lemma ex_sample_ok:
  "imageExists example_site world_fresh (filename (query_options q_sample_300))"
  "\<not> invalid_dimension (width (query_options q_sample_300))"
  "\<not> invalid_dimension (height (query_options q_sample_300))"
  by code_simp+

lemma ex_transform_after_lookup:
  "fst (processImage example_site
         (record_call (CheckCache (query_options q_sample_300)) world_fresh)
         (query_options q_sample_300)) = Inr resized_artifact"
  by code_simp

section \<open>Precedence of the request steps\<close>

lemma handle_first_call:
  "filename (query_options q) \<noteq> [] \<Longrightarrow>
   take 1 (new_calls w (snd (handleRequest s w q))) = [CheckCache (query_options q)]"
proof -
  assume f: "filename (query_options q) \<noteq> []"
  let ?o = "query_options q"
  have "\<exists>rest. calls (snd (handleRequest s w q)) = calls w @ CheckCache ?o # rest"
  proof (cases "checkCache s w ?o")
    case (Some p)
    then show ?thesis by (simp add: handle_hit[OF f])
  next
    case miss: None
    show ?thesis
    proof (cases "imageExists s w (filename ?o)")
      case False
      then show ?thesis by (simp add: handle_no_source[OF f miss])
    next
      case src: True
      show ?thesis
      proof (cases "invalid_dimension (width ?o) \<or> invalid_dimension (height ?o)")
        case True
        then show ?thesis by (simp add: handle_invalid[OF f miss src])
      next
        case False
        then have v: "\<not> invalid_dimension (width ?o)" "\<not> invalid_dimension (height ?o)"
          by simp_all
        show ?thesis
          using processImage_calls[of s "record_call (CheckCache ?o) w" ?o]
          unfolding handle_transform_response(2)[OF f miss src v] by auto
      qed
    qed
  qed
  then show ?thesis by (auto simp: new_calls_def)
qed

text \<open>
  C3, as amended. A missing or empty filename is answered 400 before anything else, with
  no call made. Otherwise the cache lookup is the first call of the request; for a
  request whose width and height are absent or valid, a hit is served at once, even when
  the source file is absent. On a miss an absent source is answered 404, even when a
  dimension is invalid; with the source present an invalid width or height is answered
  400; otherwise the transform runs and its result is served, or its failure answered
  500.
\<close>

theorem request_precedence:
  "(filename (query_options q) = [] \<longrightarrow>
      fst (handleRequest s w q) = Send 400 ''Missing required parameter: filename'' \<and>
      new_calls w (snd (handleRequest s w q)) = []) \<and>
   (filename (query_options q) \<noteq> [] \<longrightarrow>
      take 1 (new_calls w (snd (handleRequest s w q))) = [CheckCache (query_options q)]) \<and>
   (filename (query_options q) \<noteq> [] \<and>
    \<not> invalid_dimension (width (query_options q)) \<and>
    \<not> invalid_dimension (height (query_options q)) \<and>
    checkCache s w (query_options q) = Some p \<longrightarrow>
      fst (handleRequest s w q) = SendFile p) \<and>
   (filename (query_options q) \<noteq> [] \<and> checkCache s w (query_options q) = None \<and>
    \<not> imageExists s w (filename (query_options q)) \<longrightarrow>
      fst (handleRequest s w q) =
        Send 404 (''Image '' @ [CHR 0x27] @ filename (query_options q) @ [CHR 0x27] @ '' not found'')) \<and>
   (filename (query_options q) \<noteq> [] \<and> checkCache s w (query_options q) = None \<and>
    imageExists s w (filename (query_options q)) \<and>
    (invalid_dimension (width (query_options q)) \<or> invalid_dimension (height (query_options q))) \<longrightarrow>
      fst (handleRequest s w q) = Send 400 ''Width and height must be positive numbers'') \<and>
   (filename (query_options q) \<noteq> [] \<and> checkCache s w (query_options q) = None \<and>
    imageExists s w (filename (query_options q)) \<and>
    \<not> invalid_dimension (width (query_options q)) \<and>
    \<not> invalid_dimension (height (query_options q)) \<longrightarrow>
      ProcessImage (query_options q) \<in> set (new_calls w (snd (handleRequest s w q))) \<and>
      fst (handleRequest s w q) =
        (case fst (processImage s (record_call (CheckCache (query_options q)) w) (query_options q)) of
           Inr path \<Rightarrow> SendFile path
         | Inl msg \<Rightarrow> Send 500 (''Internal server error: Error: '' @ msg)))"
proof -
  have a: "fst (handleRequest s w q) = Send 400 ''Missing required parameter: filename'' \<and>
      new_calls w (snd (handleRequest s w q)) = []"
    if "filename (query_options q) = []"
    using that by (simp add: handle_missing new_calls_def)
  have a': "take 1 (new_calls w (snd (handleRequest s w q))) = [CheckCache (query_options q)]"
    if "filename (query_options q) \<noteq> []"
    using that by (rule handle_first_call)
  have b: "fst (handleRequest s w q) = SendFile p"
    if "filename (query_options q) \<noteq> [] \<and>
        \<not> invalid_dimension (width (query_options q)) \<and>
        \<not> invalid_dimension (height (query_options q)) \<and>
        checkCache s w (query_options q) = Some p"
    using that by (simp add: handle_hit)
  have c: "fst (handleRequest s w q) =
        Send 404 (''Image '' @ [CHR 0x27] @ filename (query_options q) @ [CHR 0x27] @ '' not found'')"
    if "filename (query_options q) \<noteq> [] \<and> checkCache s w (query_options q) = None \<and>
        \<not> imageExists s w (filename (query_options q))"
    using that by (simp add: handle_no_source)
  have d: "fst (handleRequest s w q) = Send 400 ''Width and height must be positive numbers''"
    if "filename (query_options q) \<noteq> [] \<and> checkCache s w (query_options q) = None \<and>
        imageExists s w (filename (query_options q)) \<and>
        (invalid_dimension (width (query_options q)) \<or> invalid_dimension (height (query_options q)))"
    using that by (simp add: handle_invalid)
  have e: "ProcessImage (query_options q) \<in> set (new_calls w (snd (handleRequest s w q))) \<and>
      fst (handleRequest s w q) =
        (case fst (processImage s (record_call (CheckCache (query_options q)) w) (query_options q)) of
           Inr path \<Rightarrow> SendFile path
         | Inl msg \<Rightarrow> Send 500 (''Internal server error: Error: '' @ msg))"
    if "filename (query_options q) \<noteq> [] \<and> checkCache s w (query_options q) = None \<and>
        imageExists s w (filename (query_options q)) \<and>
        \<not> invalid_dimension (width (query_options q)) \<and>
        \<not> invalid_dimension (height (query_options q))"
    using that handle_transform_calls[of q s w] handle_transform_response(1)[of q s w]
    by blast
  show ?thesis
    using a a' b c d e by blast
qed

theorem request_precedence_witness:
  "filename (query_options q_none) = [] \<and>
   fst (handleRequest example_site world_fresh q_none)
     = Send 400 ''Missing required parameter: filename'' \<and>
   \<not> imageExists example_site world_orphan_cache (filename (query_options q_ghost_300)) \<and>
   checkCache example_site world_orphan_cache (query_options q_ghost_300) = Some ghost_artifact \<and>
   fst (handleRequest example_site world_orphan_cache q_ghost_300) = SendFile ghost_artifact \<and>
   invalid_dimension (width (query_options q_ghost_bad)) \<and>
   \<not> imageExists example_site world_no_source (filename (query_options q_ghost_bad)) \<and>
   fst (handleRequest example_site world_no_source q_ghost_bad) = Send 404 ghost_not_found \<and>
   take 1 (new_calls world_no_source (snd (handleRequest example_site world_no_source q_ghost_bad)))
     = [CheckCache (query_options q_ghost_bad)] \<and>
   imageExists example_site world_fresh (filename (query_options q_sample_bad)) \<and>
   invalid_dimension (width (query_options q_sample_bad)) \<and>
   fst (handleRequest example_site world_fresh q_sample_bad)
     = Send 400 ''Width and height must be positive numbers'' \<and>
   ProcessImage (query_options q_sample_300)
     \<in> set (new_calls world_fresh (snd (handleRequest example_site world_fresh q_sample_300))) \<and>
   fst (handleRequest example_site world_fresh q_sample_300) = SendFile resized_artifact"
proof -
  from request_precedence[of q_none example_site world_fresh] ex_none
  have a: "fst (handleRequest example_site world_fresh q_none)
     = Send 400 ''Missing required parameter: filename''"
    by blast
  from request_precedence[of q_ghost_300 example_site world_orphan_cache ghost_artifact] ex_ghost
  have b: "fst (handleRequest example_site world_orphan_cache q_ghost_300) = SendFile ghost_artifact"
    by blast
  from request_precedence[of q_ghost_bad example_site world_no_source] ex_ghost_bad
  have c: "fst (handleRequest example_site world_no_source q_ghost_bad) = Send 404 ghost_not_found"
    by (simp add: ghost_not_found_def)
  from request_precedence[of q_ghost_bad example_site world_no_source] ex_ghost_bad(1)
  have c': "take 1 (new_calls world_no_source
                    (snd (handleRequest example_site world_no_source q_ghost_bad)))
     = [CheckCache (query_options q_ghost_bad)]"
    by blast
  from request_precedence[of q_sample_bad example_site world_fresh] ex_sample_bad
  have d: "fst (handleRequest example_site world_fresh q_sample_bad)
     = Send 400 ''Width and height must be positive numbers''"
    by blast
  from request_precedence[of q_sample_300 example_site world_fresh] ex_filename ex_miss ex_sample_ok
  have e: "ProcessImage (query_options q_sample_300)
     \<in> set (new_calls world_fresh (snd (handleRequest example_site world_fresh q_sample_300)))"
    "fst (handleRequest example_site world_fresh q_sample_300) =
        (case fst (processImage example_site
                    (record_call (CheckCache (query_options q_sample_300)) world_fresh)
                    (query_options q_sample_300)) of
           Inr path \<Rightarrow> SendFile path
         | Inl msg \<Rightarrow> Send 500 (''Internal server error: Error: '' @ msg))"
    by blast+
  from e(2) have e': "fst (handleRequest example_site world_fresh q_sample_300) = SendFile resized_artifact"
    by (simp add: ex_transform_after_lookup)
  show ?thesis
    using a b c c' d e(1) e' ex_none ex_ghost ex_ghost_bad ex_sample_bad by blast
qed

text \<open>
  The order first claimed fails twice. With the source absent and the width not a number
  the answer is 404, not the 400 of an invalid dimension; and with the source absent and
  a matching artifact in the output directory the artifact is served, not a 404.
\<close>

theorem request_precedence_counterexample:
  "invalid_dimension (width (query_options q_ghost_bad)) \<and>
   \<not> imageExists example_site world_no_source ''ghost.jpg'' \<and>
   fst (handleRequest example_site world_no_source q_ghost_bad) = Send 404 ghost_not_found \<and>
   fst (handleRequest example_site world_no_source q_ghost_bad)
     \<noteq> Send 400 ''Width and height must be positive numbers'' \<and>
   \<not> imageExists example_site world_orphan_cache ''ghost.jpg'' \<and>
   fst (handleRequest example_site world_orphan_cache q_ghost_300) = SendFile ghost_artifact \<and>
   fst (handleRequest example_site world_orphan_cache q_ghost_300) \<noteq> Send 404 ghost_not_found"
  by code_simp

text \<open>
  C4 at a failing input. The source image exists and the width is \<open>notanumber\<close>, which
  parses to \<open>NaN\<close>. \<open>NaN\<close> is falsy, so the key is that of the request without a width,
  \<open>sample.jpg\<close>; with that artifact in the output directory the middleware serves it
  before the route validates the width. With an empty cache the same request is answered
  400.
\<close>

theorem invalid_width_served_from_cache:
  "imageExists example_site world_cached_plain ''sample.jpg'' \<and>
   q_width q_sample_bad = Some ''notanumber'' \<and>
   width (query_options q_sample_bad) = Some NaN \<and>
   invalid_dimension (width (query_options q_sample_bad)) \<and>
   generateCacheKey (query_options q_sample_bad) = ''sample.jpg'' \<and>
   fst (handleRequest example_site world_cached_plain q_sample_bad) = SendFile plain_artifact \<and>
   fst (handleRequest example_site world_fresh q_sample_bad)
     = Send 400 ''Width and height must be positive numbers''"
  by code_simp

section \<open>Cache hits and the round trip\<close>

text \<open>
  C5. When the cache reports a hit for a request with a filename, the response is the
  cached path, and the only call the request adds is the cache lookup: the transformer
  is not invoked and the disk is untouched. For every request that is served a file,
  the transformer has been invoked exactly when the lookup missed, so a file is served
  either from the cache or by computing it, never both.
\<close>

theorem cache_hit_skips_transform:
  "(filename (query_options q) \<noteq> [] \<and> checkCache s w (query_options q) = Some p \<longrightarrow>
      handleRequest s w q = (SendFile p, record_call (CheckCache (query_options q)) w) \<and>
      new_calls w (snd (handleRequest s w q)) = [CheckCache (query_options q)]) \<and>
   (fst (handleRequest s w q) = SendFile p \<longrightarrow>
      (ProcessImage (query_options q) \<in> set (new_calls w (snd (handleRequest s w q))))
        = (checkCache s w (query_options q) = None))"
proof -
  have hit: "handleRequest s w q = (SendFile p, record_call (CheckCache (query_options q)) w) \<and>
      new_calls w (snd (handleRequest s w q)) = [CheckCache (query_options q)]"
    if "filename (query_options q) \<noteq> [] \<and> checkCache s w (query_options q) = Some p"
    using that by (simp add: handle_hit)
  have one: "(ProcessImage (query_options q) \<in> set (new_calls w (snd (handleRequest s w q))))
        = (checkCache s w (query_options q) = None)"
    if served: "fst (handleRequest s w q) = SendFile p"
  proof (cases "checkCache s w (query_options q)")
    case (Some p')
    have f: "filename (query_options q) \<noteq> []"
    proof
      assume "filename (query_options q) = []"
      from handle_missing[OF this, of s w] served show False by simp
    qed
    show ?thesis using Some by (simp add: handle_hit[OF f Some])
  next
    case None
    from served_on_miss[OF served None] handle_transform_calls[OF _ None]
    show ?thesis using None by simp
  qed
  show ?thesis using hit one by blast
qed

theorem cache_hit_skips_transform_witness:
  "filename (query_options q_sample_300) \<noteq> [] \<and>
   checkCache example_site world_cached_resized (query_options q_sample_300) = Some resized_artifact \<and>
   handleRequest example_site world_cached_resized q_sample_300 =
     (SendFile resized_artifact, record_call (CheckCache (query_options q_sample_300)) world_cached_resized) \<and>
   new_calls world_cached_resized (snd (handleRequest example_site world_cached_resized q_sample_300))
     = [CheckCache (query_options q_sample_300)] \<and>
   fst (handleRequest example_site world_fresh q_sample_300) = SendFile resized_artifact \<and>
   checkCache example_site world_fresh (query_options q_sample_300) = None \<and>
   ProcessImage (query_options q_sample_300)
     \<in> set (new_calls world_fresh (snd (handleRequest example_site world_fresh q_sample_300)))"
proof -
  from cache_hit_skips_transform[of q_sample_300 example_site world_cached_resized resized_artifact]
    ex_filename ex_hit
  have hit: "handleRequest example_site world_cached_resized q_sample_300 =
     (SendFile resized_artifact, record_call (CheckCache (query_options q_sample_300)) world_cached_resized)"
    "new_calls world_cached_resized (snd (handleRequest example_site world_cached_resized q_sample_300))
     = [CheckCache (query_options q_sample_300)]"
    by blast+
  from cache_hit_skips_transform[of q_sample_300 example_site world_fresh resized_artifact]
    ex_served ex_miss
  have "ProcessImage (query_options q_sample_300)
     \<in> set (new_calls world_fresh (snd (handleRequest example_site world_fresh q_sample_300)))"
    by blast
  with hit ex_filename ex_hit ex_served ex_miss show ?thesis by blast
qed

text \<open>
  C6. The path the transformer writes is the path the cache probes: both modules resolve
  the same output directory and derive the same key. When the transformer returns a path,
  the file at that path is complete and a lookup for the same options hits it, so the
  same request, handled again, is answered from the cache with no call but the lookup.
  In particular any request that was served a file is, when repeated, served the same
  path by the cache lookup alone.
\<close>

theorem transform_lookup_round_trip:
  "path_join (outputFolder s) (generateProcessedFilename r)
     = path_join (cache_outputFolder s) (generateCacheKey r) \<and>
   (processImage s w r = (Inr p, w') \<longrightarrow>
      p = path_join (outputFolder s) (generateProcessedFilename r) \<and>
      disk w' p = Intact \<and> checkCache s w' r = Some p) \<and>
   (processImage s w (query_options q) = (Inr p, w') \<and> filename (query_options q) \<noteq> [] \<longrightarrow>
      handleRequest s w' q = (SendFile p, record_call (CheckCache (query_options q)) w')) \<and>
   (fst (handleRequest s w q) = SendFile p \<longrightarrow>
      handleRequest s (snd (handleRequest s w q)) q =
        (SendFile p, record_call (CheckCache (query_options q)) (snd (handleRequest s w q))))"
proof -
  have same: "path_join (outputFolder s) (generateProcessedFilename r)
     = path_join (cache_outputFolder s) (generateCacheKey r)"
    by (simp add: output_folders_agree cache_key_segments processed_filename_segments)
  have hit: "p = path_join (outputFolder s) (generateProcessedFilename r) \<and>
      disk w' p = Intact \<and> checkCache s w' r = Some p"
    if "processImage s w r = (Inr p, w')"
    using processImage_success[OF that] unfolding target_path_def by blast
  have again: "handleRequest s w' q = (SendFile p, record_call (CheckCache (query_options q)) w')"
    if h: "processImage s w (query_options q) = (Inr p, w') \<and> filename (query_options q) \<noteq> []"
  proof -
    from h have "checkCache s w' (query_options q) = Some p"
      using processImage_success by blast
    with h show ?thesis by (simp add: handle_hit)
  qed
  have twice: "handleRequest s (snd (handleRequest s w q)) q =
        (SendFile p, record_call (CheckCache (query_options q)) (snd (handleRequest s w q)))"
    if served: "fst (handleRequest s w q) = SendFile p"
  proof -
    let ?o = "query_options q"
    have f: "filename ?o \<noteq> []"
    proof
      assume "filename ?o = []"
      from handle_missing[OF this, of s w] served show False by simp
    qed
    have "checkCache s (snd (handleRequest s w q)) ?o = Some p"
    proof (cases "checkCache s w ?o")
      case (Some p')
      from handle_hit[OF f Some] served have "p' = p" by simp
      with Some show ?thesis by (simp add: handle_hit[OF f Some])
    next
      case None
      from served_on_miss[OF served None]
      have ok: "imageExists s w (filename ?o)" "\<not> invalid_dimension (width ?o)"
        "\<not> invalid_dimension (height ?o)"
        by simp_all
      note resp = handle_transform_response[OF f None ok]
      from served resp(1)
      have "fst (processImage s (record_call (CheckCache ?o) w) ?o) = Inr p"
        by (simp split: sum.splits)
      then have "processImage s (record_call (CheckCache ?o) w) ?o
                   = (Inr p, snd (handleRequest s w q))"
        by (simp add: prod_eq_iff resp(2))
      from processImage_success[OF this] show ?thesis by simp
    qed
    then show ?thesis by (rule handle_hit[OF f])
  qed
  show ?thesis using same hit again twice by blast
qed

theorem transform_lookup_round_trip_witness:
  "fst (processImage example_site world_fresh (query_options q_sample_300)) = Inr resized_artifact \<and>
   filename (query_options q_sample_300) \<noteq> [] \<and>
   disk (snd (processImage example_site world_fresh (query_options q_sample_300))) resized_artifact
     = Intact \<and>
   checkCache example_site (snd (processImage example_site world_fresh (query_options q_sample_300)))
     (query_options q_sample_300) = Some resized_artifact \<and>
   fst (handleRequest example_site
          (snd (processImage example_site world_fresh (query_options q_sample_300))) q_sample_300)
     = SendFile resized_artifact \<and>
   fst (handleRequest example_site world_fresh q_sample_300) = SendFile resized_artifact \<and>
   handleRequest example_site (snd (handleRequest example_site world_fresh q_sample_300)) q_sample_300 =
     (SendFile resized_artifact,
      record_call (CheckCache (query_options q_sample_300))
        (snd (handleRequest example_site world_fresh q_sample_300)))"
proof -
  let ?w' = "snd (processImage example_site world_fresh (query_options q_sample_300))"
  have run: "processImage example_site world_fresh (query_options q_sample_300)
               = (Inr resized_artifact, ?w')"
    using ex_transform by (simp add: prod_eq_iff)
  note inst = transform_lookup_round_trip[where s = example_site and r = "query_options q_sample_300"
      and w = world_fresh and p = resized_artifact and w' = ?w' and q = q_sample_300]
  from inst run ex_filename
  have a: "disk ?w' resized_artifact = Intact"
    "checkCache example_site ?w' (query_options q_sample_300) = Some resized_artifact"
    "handleRequest example_site ?w' q_sample_300 =
       (SendFile resized_artifact, record_call (CheckCache (query_options q_sample_300)) ?w')"
    by blast+
  from inst ex_served
  have b: "handleRequest example_site (snd (handleRequest example_site world_fresh q_sample_300))
             q_sample_300 =
     (SendFile resized_artifact,
      record_call (CheckCache (query_options q_sample_300))
        (snd (handleRequest example_site world_fresh q_sample_300)))"
    by blast
  show ?thesis using a b ex_transform ex_filename ex_served by simp
qed

section \<open>Failures of the transformer\<close>

lemma ex_no_source:
  "existsSync world_no_source (outputFolder example_site)"
  "\<not> existsSync world_no_source (input_path example_site ghost_options)"
  "input_path example_site ghost_options = ghost_src"
  by code_simp+

lemma ex_readonly:
  "\<not> folder_ready example_site world_readonly"
  "mkdir_error world_readonly = Some ''Error: EACCES: permission denied''"
  "\<not> existsSync world_readonly (input_path example_site ghost_options)"
  by code_simp+

lemma ex_codec_run:
  "SharpRun (codec_call example_site sample_w300)
     \<in> set (new_calls world_fresh (snd (processImage example_site world_fresh sample_w300)))"
  by code_simp

lemma ex_bare:
  "folder_ready example_site world_bare"
  "\<not> existsSync world_bare (outputFolder example_site)"
  "input_path example_site parent_request = ''/srv/app/public''"
  "\<not> existsSync world_bare (input_path example_site parent_request)"
  "existsSync (after_folder example_site world_bare parent_request)
     (input_path example_site parent_request)"
  "SharpRun (codec_call example_site parent_request)
     \<in> set (new_calls world_bare (snd (processImage example_site world_bare parent_request)))"
  by code_simp+

text \<open>
  C8, as amended. When the output directory is there or can be made, the transformer
  fails with the message of the explicit existence check, and without a call of the
  codec, exactly when the input path does not exist at that check, which runs once the
  output directory and its missing parents have been made; when the output directory
  is already there, that is exactly when the input file is absent. The codec is called
  only after the check has passed. When the output directory cannot be made, that
  failure is reported instead, whatever the input. Every failure, the absent input
  included, leaves through the same wrapper, so it differs from a codec or directory
  failure in the wrapped message only.
\<close>

theorem transformer_failures:
  "(folder_ready s w \<longrightarrow>
      (fst (processImage s w r) =
         Inl (''Failed to process image: Error: Input file not found: '' @ input_path s r) \<and>
       new_calls w (snd (processImage s w r)) = [ProcessImage r])
      = (\<not> existsSync (after_folder s w r) (input_path s r))) \<and>
   (existsSync w (outputFolder s) \<longrightarrow>
      (fst (processImage s w r) =
         Inl (''Failed to process image: Error: Input file not found: '' @ input_path s r) \<and>
       new_calls w (snd (processImage s w r)) = [ProcessImage r])
      = (\<not> existsSync w (input_path s r))) \<and>
   (SharpRun c \<in> set (new_calls w (snd (processImage s w r))) \<longrightarrow>
      c = codec_call s r \<and> existsSync (after_folder s w r) (input_path s r)) \<and>
   (\<not> folder_ready s w \<longrightarrow>
      fst (processImage s w r) =
        Inl (''Failed to process image: Error: Failed to create output directory: ''
             @ the (mkdir_error w))) \<and>
   (fst (processImage s w r) = Inl m \<longrightarrow> (\<exists>inner. m = ''Failed to process image: '' @ inner))"
proof (cases "folder_ready s w")
  case False
  then have "\<not> existsSync w (outputFolder s)" by (simp add: folder_ready_def)
  with False show ?thesis by (auto simp: processImage_mkdir_fails)
next
  case ready: True
  have there: "existsSync (after_folder s w r) (input_path s r) = existsSync w (input_path s r)"
    if "existsSync w (outputFolder s)"
    using that by (simp add: after_folder_present)
  show ?thesis
  proof (cases "existsSync (after_folder s w r) (input_path s r)")
    case False
    with ready there show ?thesis by (auto simp: processImage_not_found)
  next
    case True
    with ready there show ?thesis
      by (cases "sharp w (codec_call s r)") (auto simp: processImage_codec)
  qed
qed

theorem transformer_failures_witness:
  "existsSync world_no_source (outputFolder example_site) \<and>
   \<not> existsSync world_no_source (input_path example_site ghost_options) \<and>
   fst (processImage example_site world_no_source ghost_options) =
     Inl (''Failed to process image: Error: Input file not found: '' @ ghost_src) \<and>
   new_calls world_no_source (snd (processImage example_site world_no_source ghost_options))
     = [ProcessImage ghost_options] \<and>
   folder_ready example_site world_bare \<and>
   \<not> existsSync world_bare (input_path example_site parent_request) \<and>
   existsSync (after_folder example_site world_bare parent_request)
     (input_path example_site parent_request) \<and>
   new_calls world_bare (snd (processImage example_site world_bare parent_request))
     \<noteq> [ProcessImage parent_request] \<and>
   SharpRun (codec_call example_site sample_w300)
     \<in> set (new_calls world_fresh (snd (processImage example_site world_fresh sample_w300))) \<and>
   existsSync (after_folder example_site world_fresh sample_w300)
     (input_path example_site sample_w300) \<and>
   \<not> folder_ready example_site world_readonly \<and>
   fst (processImage example_site world_readonly ghost_options) =
     Inl (''Failed to process image: Error: Failed to create output directory: ''
          @ ''Error: EACCES: permission denied'')"
proof -
  from transformer_failures[where s = example_site and w = world_no_source and r = ghost_options]
    ex_no_source(1,2)
  have nf: "fst (processImage example_site world_no_source ghost_options) =
        Inl (''Failed to process image: Error: Input file not found: ''
             @ input_path example_site ghost_options)"
    "new_calls world_no_source (snd (processImage example_site world_no_source ghost_options))
       = [ProcessImage ghost_options]"
    by blast+
  from transformer_failures[where s = example_site and w = world_bare and r = parent_request]
    ex_bare(1,5)
  have "\<not> (fst (processImage example_site world_bare parent_request) =
         Inl (''Failed to process image: Error: Input file not found: ''
              @ input_path example_site parent_request) \<and>
       new_calls world_bare (snd (processImage example_site world_bare parent_request))
         = [ProcessImage parent_request])"
    by blast
  moreover have "set (new_calls world_bare (snd (processImage example_site world_bare parent_request)))
                   \<noteq> set [ProcessImage parent_request]"
    using ex_bare(6) by auto
  ultimately have bare: "new_calls world_bare (snd (processImage example_site world_bare parent_request))
     \<noteq> [ProcessImage parent_request]"
    by auto
  from transformer_failures[where s = example_site and w = world_fresh and r = sample_w300
      and c = "codec_call example_site sample_w300"] ex_codec_run
  have ran: "existsSync (after_folder example_site world_fresh sample_w300)
     (input_path example_site sample_w300)"
    by blast
  from transformer_failures[where s = example_site and w = world_readonly and r = ghost_options]
    ex_readonly(1)
  have "fst (processImage example_site world_readonly ghost_options) =
        Inl (''Failed to process image: Error: Failed to create output directory: ''
             @ the (mkdir_error world_readonly))"
    by blast
  then have ro: "fst (processImage example_site world_readonly ghost_options) =
     Inl (''Failed to process image: Error: Failed to create output directory: ''
          @ ''Error: EACCES: permission denied'')"
    by (simp add: ex_readonly(2))
  show ?thesis
    using nf(1)[unfolded ex_no_source(3)] nf(2) bare ran ro ex_no_source(1,2) ex_bare(1,4,5)
      ex_codec_run ex_readonly(1)
    by blast
qed

text \<open>
  The input is absent, yet the failure is not the one of the existence check: the output
  directory could not be made, and that is reported first.
\<close>

theorem source_absent_other_failure:
  "\<not> existsSync world_readonly (input_path example_site ghost_options) \<and>
   fst (processImage example_site world_readonly ghost_options) =
     Inl ''Failed to process image: Error: Failed to create output directory: Error: EACCES: permission denied'' \<and>
   fst (processImage example_site world_readonly ghost_options) \<noteq>
     Inl (''Failed to process image: Error: Input file not found: '' @ ghost_src)"
  by code_simp

lemma ex_disk_full:
  "sharp world_disk_full (codec_call example_site sample_w300)
     = FailedPartial ''Error: ENOSPC: no space left on device''"
  "sample_src \<notin> set (mkdir_chain (outputFolder example_site))"
  "sample_src \<noteq> target_path example_site sample_w300"
  "target_path example_site sample_w300 = resized_artifact"
  "existsSync world_disk_full sample_src"
  by code_simp+

lemma ex_codec_run_full:
  "SharpRun (codec_call example_site sample_w300)
     \<in> set (new_calls world_disk_full (snd (processImage example_site world_disk_full sample_w300)))"
  by code_simp

lemma ex_before_codec:
  "new_calls world_no_source (snd (processImage example_site world_no_source ghost_options))
     = [ProcessImage ghost_options]"
  "ghost_artifact \<notin> set (mkdir_chain (outputFolder example_site))"
  "target_path example_site ghost_options = ghost_artifact"
  by code_simp+

lemma ex_rejects:
  "sharp world_codec_rejects (codec_call example_site sample_w300)
     = Failed ''Error: Input file contains unsupported image format''"
  "resized_artifact \<notin> set (mkdir_chain (outputFolder example_site))"
  "existsSync world_codec_rejects (outputFolder example_site)"
  by code_simp+

text \<open>On a disk without \<open>public/\<close>, a first run makes the whole chain of directories.\<close>

lemma ex_bare_chain:
  "mkdir_chain (outputFolder example_site) =
     [''/srv'', ''/srv/app'', ''/srv/app/public'', ''/srv/app/public/images'',
      ''/srv/app/public/images/processed'']"
  "disk world_bare ''/srv/app/public'' = Missing"
  "disk (snd (processImage example_site world_bare sample_w300)) ''/srv/app/public'' = Intact"
  by code_simp+

text \<open>
  C9, as amended. The codec is handed the target path itself: nothing is written to a
  temporary place and renamed. A transform changes no path but the target and the
  directories it makes, which are the output directory and its parents; it never changes
  an entry that exists, the target apart. A transform that fails before the codec is
  called, or whose codec fails without writing, changes nothing but those directories,
  and nothing at all when the output directory is already there.
\<close>

theorem transform_frame:
  "(p \<notin> set (mkdir_chain (outputFolder s)) \<and> p \<noteq> target_path s r \<longrightarrow>
      disk (snd (processImage s w r)) p = disk w p) \<and>
   (existsSync w p \<and> p \<noteq> target_path s r \<longrightarrow>
      disk (snd (processImage s w r)) p = disk w p) \<and>
   (SharpRun c \<in> set (new_calls w (snd (processImage s w r))) \<longrightarrow>
      sc_output c = target_path s r) \<and>
   (new_calls w (snd (processImage s w r)) = [ProcessImage r] \<and>
    (p \<notin> set (mkdir_chain (outputFolder s)) \<or> existsSync w (outputFolder s)) \<longrightarrow>
      disk (snd (processImage s w r)) p = disk w p) \<and>
   (sharp w (codec_call s r) = Failed e \<and>
    (p \<notin> set (mkdir_chain (outputFolder s)) \<or> existsSync w (outputFolder s)) \<longrightarrow>
      disk (snd (processImage s w r)) p = disk w p)"
proof (cases "folder_ready s w")
  case False
  then show ?thesis by (simp add: processImage_mkdir_fails)
next
  case ready: True
  have keep: "disk (after_folder s w r) p = disk w p"
    if "p \<notin> set (mkdir_chain (outputFolder s)) \<or> existsSync w (outputFolder s) \<or> existsSync w p"
    using that
    by (auto simp: after_folder_def ensureOutputFolderExists_def split: option.splits)
  show ?thesis
  proof (cases "existsSync (after_folder s w r) (input_path s r)")
    case False
    with ready keep show ?thesis by (simp add: processImage_not_found)
  next
    case True
    with ready keep show ?thesis
      by (cases "sharp w (codec_call s r)") (auto simp: processImage_codec)
  qed
qed

theorem transform_frame_witness:
  "sample_src \<notin> set (mkdir_chain (outputFolder example_site)) \<and>
   sample_src \<noteq> target_path example_site sample_w300 \<and>
   disk (snd (processImage example_site world_disk_full sample_w300)) sample_src
     = disk world_disk_full sample_src \<and>
   existsSync world_disk_full sample_src \<and>
   SharpRun (codec_call example_site sample_w300)
     \<in> set (new_calls world_disk_full (snd (processImage example_site world_disk_full sample_w300))) \<and>
   sc_output (codec_call example_site sample_w300) = resized_artifact \<and>
   new_calls world_no_source (snd (processImage example_site world_no_source ghost_options))
     = [ProcessImage ghost_options] \<and>
   ghost_artifact \<notin> set (mkdir_chain (outputFolder example_site)) \<and>
   disk (snd (processImage example_site world_no_source ghost_options)) ghost_artifact
     = disk world_no_source ghost_artifact \<and>
   sharp world_codec_rejects (codec_call example_site sample_w300)
     = Failed ''Error: Input file contains unsupported image format'' \<and>
   existsSync world_codec_rejects (outputFolder example_site) \<and>
   disk (snd (processImage example_site world_codec_rejects sample_w300)) resized_artifact
     = disk world_codec_rejects resized_artifact"
proof -
  from transform_frame[where p = sample_src and s = example_site and r = sample_w300
      and w = world_disk_full] ex_disk_full(2,3)
  have a: "disk (snd (processImage example_site world_disk_full sample_w300)) sample_src
     = disk world_disk_full sample_src"
    by blast
  from transform_frame[where s = example_site and r = sample_w300 and w = world_disk_full
      and c = "codec_call example_site sample_w300"] ex_codec_run_full
  have "sc_output (codec_call example_site sample_w300) = target_path example_site sample_w300"
    by blast
  then have b: "sc_output (codec_call example_site sample_w300) = resized_artifact"
    by (simp add: ex_disk_full(4))
  from transform_frame[where p = ghost_artifact and s = example_site and r = ghost_options
      and w = world_no_source] ex_before_codec(1,2)
  have c: "disk (snd (processImage example_site world_no_source ghost_options)) ghost_artifact
     = disk world_no_source ghost_artifact"
    by blast
  from transform_frame[where p = resized_artifact and s = example_site and r = sample_w300
      and w = world_codec_rejects
      and e = "''Error: Input file contains unsupported image format''"] ex_rejects(1,3)
  have d: "disk (snd (processImage example_site world_codec_rejects sample_w300)) resized_artifact
     = disk world_codec_rejects resized_artifact"
    by blast
  show ?thesis
    using a b c d ex_disk_full(2,3,5) ex_codec_run_full ex_before_codec(1,2) ex_rejects(1,3)
    by blast
qed

text \<open>
  The transform is not atomic: a codec that fails after it began to write leaves a
  truncated file at the target key, where nothing was before, and the next lookup
  reports it as a hit.
\<close>

theorem failed_transform_leaves_partial_artifact:
  "disk world_disk_full resized_artifact = Missing \<and>
   checkCache example_site world_disk_full sample_w300 = None \<and>
   fst (processImage example_site world_disk_full sample_w300) =
     Inl ''Failed to process image: Error: ENOSPC: no space left on device'' \<and>
   disk (snd (processImage example_site world_disk_full sample_w300)) resized_artifact = Truncated \<and>
   checkCache example_site (snd (processImage example_site world_disk_full sample_w300)) sample_w300
     = Some resized_artifact"
  by code_simp

section \<open>Storage errors during the cache lookup\<close>

lemma existsSync_inaccessible_as_missing:
  "disk w c = Inaccessible \<Longrightarrow> existsSync (write_node c Missing w) p = existsSync w p"
  by (auto simp: existsSync_def)

lemma processImage_same_probes:
  assumes ex: "\<And>p. existsSync w2 p = existsSync w1 p"
    and mk: "mkdir_error w2 = mkdir_error w1" and sh: "sharp w2 = sharp w1"
    and ca: "calls w2 = calls w1"
  shows "fst (processImage s w2 r) = fst (processImage s w1 r) \<and>
         calls (snd (processImage s w2 r)) = calls (snd (processImage s w1 r))"
proof -
  have fr: "folder_ready s w2 = folder_ready s w1"
    by (simp add: folder_ready_def ex mk)
  have inp: "existsSync (after_folder s w2 r) (input_path s r)
               = existsSync (after_folder s w1 r) (input_path s r)"
    by (simp add: existsSync_after_folder ex mk)
  show ?thesis
  proof (cases "folder_ready s w1")
    case False
    then show ?thesis using fr by (simp add: processImage_mkdir_fails mk ca)
  next
    case ready: True
    show ?thesis
    proof (cases "existsSync (after_folder s w1 r) (input_path s r)")
      case False
      then show ?thesis using ready fr inp by (simp add: processImage_not_found ca)
    next
      case True
      then show ?thesis using ready fr inp
        by (cases "sharp w1 (codec_call s r)") (simp_all add: processImage_codec sh ca)
    qed
  qed
qed

lemma handleRequest_same_probes:
  assumes ex: "\<And>p. existsSync w2 p = existsSync w1 p"
    and mk: "mkdir_error w2 = mkdir_error w1" and sh: "sharp w2 = sharp w1"
    and ca: "calls w2 = calls w1"
  shows "fst (handleRequest s w2 q) = fst (handleRequest s w1 q) \<and>
         calls (snd (handleRequest s w2 q)) = calls (snd (handleRequest s w1 q))"
proof -
  let ?o = "query_options q"
  have cc: "checkCache s w2 ?o = checkCache s w1 ?o"
    by (simp add: checkCache_def ex)
  have ie: "imageExists s w2 (filename ?o) = imageExists s w1 (filename ?o)"
    by (simp add: imageExists_def ex)
  have pi: "fst (processImage s (record_call (CheckCache ?o) w2) ?o)
              = fst (processImage s (record_call (CheckCache ?o) w1) ?o) \<and>
            calls (snd (processImage s (record_call (CheckCache ?o) w2) ?o))
              = calls (snd (processImage s (record_call (CheckCache ?o) w1) ?o))"
    by (rule processImage_same_probes) (simp_all add: ex mk sh ca)
  show ?thesis
  proof (cases "filename ?o = []")
    case True
    then show ?thesis by (simp add: handle_missing ca)
  next
    case f: False
    show ?thesis
    proof (cases "checkCache s w1 ?o")
      case (Some p)
      then show ?thesis using f cc by (simp add: handle_hit ca)
    next
      case miss: None
      show ?thesis
      proof (cases "imageExists s w1 (filename ?o)")
        case False
        then show ?thesis using f miss cc ie by (simp add: handle_no_source ca)
      next
        case src: True
        show ?thesis
        proof (cases "invalid_dimension (width ?o) \<or> invalid_dimension (height ?o)")
          case True
          then show ?thesis using f miss cc ie src by (simp add: handle_invalid ca)
        next
          case False
          then have v: "\<not> invalid_dimension (width ?o)" "\<not> invalid_dimension (height ?o)"
            by simp_all
          have m2: "checkCache s w2 ?o = None" and s2: "imageExists s w2 (filename ?o)"
            using miss cc src ie by simp_all
          show ?thesis
            using pi
            by (simp add: handle_transform_response[OF f miss src v]
                handle_transform_response[OF f m2 s2 v])
        qed
      qed
    qed
  qed
qed

lemma ex_unreadable:
  "disk world_unreadable_cache
     (path_join (cache_outputFolder example_site) (generateCacheKey (query_options q_sample_300)))
     = Inaccessible"
  "imageExists example_site world_unreadable_cache (filename (query_options q_sample_300))"
  by code_simp+

lemma ex_unreadable_response:
  "fst (handleRequest example_site
          (write_node (path_join (cache_outputFolder example_site)
                         (generateCacheKey (query_options q_sample_300))) Missing
             world_unreadable_cache) q_sample_300) = SendFile resized_artifact"
  by code_simp

text \<open>
  C10. A probe of the cached path that fails with a storage error is a miss: the lookup
  returns nothing, as it does once the entry is made missing; the response and the calls
  of the request are those of the world with the entry missing; the middleware passes the
  options on; and with the source present and the dimensions valid the transformer is
  invoked.
\<close>

theorem probe_error_is_miss:
  "(disk w (path_join (cache_outputFolder s) (generateCacheKey r)) = Inaccessible \<longrightarrow>
      checkCache s w r = None \<and>
      checkCache s (write_node (path_join (cache_outputFolder s) (generateCacheKey r)) Missing w) r
        = None) \<and>
   (disk w (path_join (cache_outputFolder s) (generateCacheKey (query_options q))) = Inaccessible \<longrightarrow>
      fst (handleRequest s w q) =
        fst (handleRequest s
              (write_node (path_join (cache_outputFolder s) (generateCacheKey (query_options q)))
                 Missing w) q) \<and>
      calls (snd (handleRequest s w q)) =
        calls (snd (handleRequest s
              (write_node (path_join (cache_outputFolder s) (generateCacheKey (query_options q)))
                 Missing w) q))) \<and>
   (disk w (path_join (cache_outputFolder s) (generateCacheKey (query_options q))) = Inaccessible \<and>
    filename (query_options q) \<noteq> [] \<longrightarrow>
      fst (cacheMiddleware s w q) = Next (query_options q)) \<and>
   (disk w (path_join (cache_outputFolder s) (generateCacheKey (query_options q))) = Inaccessible \<and>
    filename (query_options q) \<noteq> [] \<and> imageExists s w (filename (query_options q)) \<and>
    \<not> invalid_dimension (width (query_options q)) \<and>
    \<not> invalid_dimension (height (query_options q)) \<longrightarrow>
      ProcessImage (query_options q) \<in> set (new_calls w (snd (handleRequest s w q))))"
proof -
  let ?c = "path_join (cache_outputFolder s) (generateCacheKey (query_options q))"
  have a: "checkCache s w r = None \<and>
      checkCache s (write_node (path_join (cache_outputFolder s) (generateCacheKey r)) Missing w) r
        = None"
    if "disk w (path_join (cache_outputFolder s) (generateCacheKey r)) = Inaccessible"
    using that by (simp add: checkCache_def existsSync_def)
  have b: "fst (handleRequest s w q) = fst (handleRequest s (write_node ?c Missing w) q) \<and>
      calls (snd (handleRequest s w q)) = calls (snd (handleRequest s (write_node ?c Missing w) q))"
    if h: "disk w ?c = Inaccessible"
  proof -
    have "fst (handleRequest s (write_node ?c Missing w) q) = fst (handleRequest s w q) \<and>
        calls (snd (handleRequest s (write_node ?c Missing w) q)) = calls (snd (handleRequest s w q))"
      by (rule handleRequest_same_probes)
         (simp_all add: existsSync_inaccessible_as_missing[OF h])
    then show ?thesis by simp
  qed
  have miss: "checkCache s w (query_options q) = None" if "disk w ?c = Inaccessible"
    using that by (simp add: checkCache_def existsSync_def)
  have c: "fst (cacheMiddleware s w q) = Next (query_options q)"
    if "disk w ?c = Inaccessible \<and> filename (query_options q) \<noteq> []"
    using that miss by (simp add: cacheMiddleware_def Let_def)
  have d: "ProcessImage (query_options q) \<in> set (new_calls w (snd (handleRequest s w q)))"
    if "disk w ?c = Inaccessible \<and>
        filename (query_options q) \<noteq> [] \<and> imageExists s w (filename (query_options q)) \<and>
        \<not> invalid_dimension (width (query_options q)) \<and>
        \<not> invalid_dimension (height (query_options q))"
    using that miss handle_transform_calls[of q s w] by blast
  show ?thesis using a b c d by blast
qed

theorem probe_error_is_miss_witness:
  "disk world_unreadable_cache
     (path_join (cache_outputFolder example_site) (generateCacheKey (query_options q_sample_300)))
     = Inaccessible \<and>
   filename (query_options q_sample_300) \<noteq> [] \<and>
   imageExists example_site world_unreadable_cache (filename (query_options q_sample_300)) \<and>
   checkCache example_site world_unreadable_cache (query_options q_sample_300) = None \<and>
   fst (cacheMiddleware example_site world_unreadable_cache q_sample_300)
     = Next (query_options q_sample_300) \<and>
   fst (handleRequest example_site world_unreadable_cache q_sample_300) = SendFile resized_artifact \<and>
   ProcessImage (query_options q_sample_300)
     \<in> set (new_calls world_unreadable_cache
              (snd (handleRequest example_site world_unreadable_cache q_sample_300)))"
proof -
  note inst = probe_error_is_miss[of world_unreadable_cache example_site "query_options q_sample_300"
      q_sample_300]
  from inst ex_unreadable(1)
  have miss: "checkCache example_site world_unreadable_cache (query_options q_sample_300) = None"
    by blast
  from inst ex_unreadable(1)
  have "fst (handleRequest example_site world_unreadable_cache q_sample_300) =
        fst (handleRequest example_site
          (write_node (path_join (cache_outputFolder example_site)
                         (generateCacheKey (query_options q_sample_300))) Missing
             world_unreadable_cache) q_sample_300)"
    by blast
  then have same: "fst (handleRequest example_site world_unreadable_cache q_sample_300)
                     = SendFile resized_artifact"
    by (simp add: ex_unreadable_response)
  from inst ex_unreadable(1) ex_filename
  have nxt: "fst (cacheMiddleware example_site world_unreadable_cache q_sample_300)
     = Next (query_options q_sample_300)"
    by blast
  from inst ex_unreadable ex_filename ex_sample_ok(2,3)
  have "ProcessImage (query_options q_sample_300)
     \<in> set (new_calls world_unreadable_cache
              (snd (handleRequest example_site world_unreadable_cache q_sample_300)))"
    by blast
  with miss same nxt ex_unreadable ex_filename show ?thesis by blast
qed


end
